theory Spec2Isabelle
  imports Main "HOL-Library.Word"
begin

unbundle bit_operations_syntax

section \<open>ChaCha20, Poly1305 and their AEAD compositions\<close>

text \<open>
  A shallow embedding of the Go packages \<^verbatim>\<open>chacha20\<close>, \<^verbatim>\<open>poly1305\<close>,
  \<^verbatim>\<open>chacha20poly1305\<close>, \<^verbatim>\<open>xchacha20\<close> and \<^verbatim>\<open>xchacha20poly1305\<close>.

  \<^item> \<^verbatim>\<open>byte\<close> and \<^verbatim>\<open>uint32\<close> are words of 8 and 32 bits: \<open>+\<close> wraps around as in Go.
  \<^item> Slices and fixed-size arrays are lists. The size of an array parameter
    (\<^verbatim>\<open>[32]byte\<close>, \<^verbatim>\<open>[12]byte\<close>, ...) is fixed by its Go type; theorems that depend on
    it state it as a hypothesis.
  \<^item> \<^verbatim>\<open>*big.Int\<close> is \<open>int\<close>; \<^verbatim>\<open>int\<close> (lengths and indices, 64 bits) is \<open>nat\<close>.
  \<^item> A method with a pointer receiver takes the instance and returns the updated instance
    next to its result.
  \<^item> \<^verbatim>\<open>for i := range n\<close> is a \<open>fold\<close> over \<open>[0..<n]\<close>; a \<^verbatim>\<open>for\<close> loop with its own
    step is a recursive function.
  \<^item> \<^verbatim>\<open>int(math.Ceil(float64(len(data)) / BlockSize))\<close> is the integer ceiling
    \<open>(len + BlockSize - 1) div BlockSize\<close>: the conversion to \<^verbatim>\<open>float64\<close> and the division
    by a power of two are exact for every length below \<open>2 ^ 53\<close>, which bounds the lengths
    this development is about.
\<close>

subsection \<open>Slices and library functions\<close>

type_synonym byte = "8 word"
type_synonym uint32 = "32 word"

text \<open>\<^verbatim>\<open>xs[lo:hi]\<close>.\<close>

definition slice :: "'a list \<Rightarrow> nat \<Rightarrow> nat \<Rightarrow> 'a list" where
  "slice xs lo hi = take (hi - lo) (drop lo xs)"

text \<open>\<^verbatim>\<open>copy(dst[lo:hi], src)\<close> copies \<^verbatim>\<open>min(hi - lo, len(src))\<close> elements.\<close>

definition copy_into :: "'a list \<Rightarrow> nat \<Rightarrow> nat \<Rightarrow> 'a list \<Rightarrow> 'a list" where
  "copy_into dst lo hi src =
     (let n = min (hi - lo) (length src) in take lo dst @ take n src @ drop (lo + n) dst)"

definition ceilDiv :: "nat \<Rightarrow> nat \<Rightarrow> nat" where
  "ceilDiv n bs = (n + bs - 1) div bs"

text \<open>\<^verbatim>\<open>binary.LittleEndian.Uint32\<close> and \<^verbatim>\<open>binary.LittleEndian.PutUint32\<close>.\<close>

definition Uint32 :: "byte list \<Rightarrow> uint32" where
  "Uint32 b = ((ucast (b ! 0) OR push_bit 8 (ucast (b ! 1))) OR
              push_bit 16 (ucast (b ! 2))) OR push_bit 24 (ucast (b ! 3))"

definition PutUint32 :: "byte list \<Rightarrow> uint32 \<Rightarrow> byte list" where
  "PutUint32 b v = b[0 := ucast v, 1 := ucast (drop_bit 8 v),
                     2 := ucast (drop_bit 16 v), 3 := ucast (drop_bit 24 v)]"

text \<open>\<^verbatim>\<open>bits.RotateLeft32\<close>: \<^verbatim>\<open>s := uint(k) & 31; return x<<s | x>>(32-s)\<close>.\<close>

definition RotateLeft32 :: "uint32 \<Rightarrow> nat \<Rightarrow> uint32" where
  "RotateLeft32 x k = (let s = k mod 32 in push_bit s x OR drop_bit (32 - s) x)"

text \<open>The four bytes of a word, low byte first: \<^verbatim>\<open>byte(word)\<close>, \<^verbatim>\<open>byte(word >> 8)\<close>,
  \<^verbatim>\<open>byte(word >> 16)\<close>, \<^verbatim>\<open>byte(word >> 24)\<close>, written at \<^verbatim>\<open>index\<close> .. \<^verbatim>\<open>index+3\<close>.\<close>

definition putWord :: "byte list \<Rightarrow> nat \<Rightarrow> uint32 \<Rightarrow> byte list" where
  "putWord result index word =
     (let result = result[index := ucast word];
          result = result[index + 1 := ucast (drop_bit 8 word)];
          result = result[index + 2 := ucast (drop_bit 16 word)];
          result = result[index + 3 := ucast (drop_bit 24 word)]
      in result)"

subsection \<open>Package chacha20\<close>

definition chacha20_BlockSize :: nat where
  "chacha20_BlockSize = 64"

record ChaCha20 =
  counter :: uint32
  key :: "uint32 list"
  nonce :: "uint32 list"
  state :: "uint32 list"

definition quarterRound ::
  "uint32 \<Rightarrow> uint32 \<Rightarrow> uint32 \<Rightarrow> uint32 \<Rightarrow> uint32 \<times> uint32 \<times> uint32 \<times> uint32" where
  "quarterRound a0 b0 c0 d0 =
    (let a = a0 + b0; d = d0 XOR a; d = RotateLeft32 d 16;
         c = c0 + d; b = b0 XOR c; b = RotateLeft32 b 12;
         a = a + b; d = d XOR a; d = RotateLeft32 d 8;
         c = c + d; b = b XOR c; b = RotateLeft32 b 7
     in (a, b, c, d))"

definition initState :: "uint32 list \<Rightarrow> uint32 list \<Rightarrow> uint32 \<Rightarrow> uint32 list" where
  "initState k n c =
    (let constant = [0x61707865, 0x3320646e, 0x79622d32, 0x6b206574];
         st = replicate 16 0;
         st = copy_into st 0 4 constant;
         st = copy_into st 4 12 k;
         st = st[12 := c];
         st = copy_into st 13 16 n
     in st)"

definition NewChaCha20 :: "byte list \<Rightarrow> byte list \<Rightarrow> byte list \<Rightarrow> ChaCha20" where
  "NewChaCha20 keyb nonceb counterb =
    (let k = [Uint32 (slice keyb 0 4), Uint32 (slice keyb 4 8), Uint32 (slice keyb 8 12),
              Uint32 (slice keyb 12 16), Uint32 (slice keyb 16 20), Uint32 (slice keyb 20 24),
              Uint32 (slice keyb 24 28), Uint32 (slice keyb 28 32)];
         b = Uint32 counterb;
         n = [Uint32 (slice nonceb 0 4), Uint32 (slice nonceb 4 8), Uint32 (slice nonceb 8 12)];
         st = initState k n b
     in \<lparr>counter = b, key = k, nonce = n, state = st\<rparr>)"

text \<open>The method \<^verbatim>\<open>(s *ChaCha20) quarterRound(x, y, z, w)\<close>; the array it returns is the
  \<open>state\<close> field of the instance, and so for the three round methods.\<close>

definition quarterRoundAt :: "nat \<Rightarrow> nat \<Rightarrow> nat \<Rightarrow> nat \<Rightarrow> ChaCha20 \<Rightarrow> ChaCha20" where
  "quarterRoundAt x y z w c =
    (case quarterRound (state c ! x) (state c ! y) (state c ! z) (state c ! w) of
       (a, b, c', d) \<Rightarrow> c\<lparr>state := (state c)[x := a, y := b, z := c', w := d]\<rparr>)"

definition columnRound :: "ChaCha20 \<Rightarrow> ChaCha20" where
  "columnRound c = quarterRoundAt 3 7 11 15 (quarterRoundAt 2 6 10 14
                     (quarterRoundAt 1 5 9 13 (quarterRoundAt 0 4 8 12 c)))"

definition diagonalRound :: "ChaCha20 \<Rightarrow> ChaCha20" where
  "diagonalRound c = quarterRoundAt 3 4 9 14 (quarterRoundAt 2 7 8 13
                     (quarterRoundAt 1 6 11 12 (quarterRoundAt 0 5 10 15 c)))"

definition doubleRound :: "ChaCha20 \<Rightarrow> ChaCha20" where
  "doubleRound c = diagonalRound (columnRound c)"

definition CreateBlock :: "ChaCha20 \<Rightarrow> uint32 list \<times> ChaCha20" where
  "CreateBlock c0 =
    (let c = c0\<lparr>state := initState (key c0) (nonce c0) (counter c0)\<rparr>;
         old_state = state c;
         c = (doubleRound ^^ 10) c;
         c = c\<lparr>state := fold (\<lambda>i st. st[i := st ! i + old_state ! i])
                            [0..<length old_state] (state c)\<rparr>;
         c = c\<lparr>counter := counter c + 1\<rparr>
     in (state c, c))"

text \<open>
  The body of \<^verbatim>\<open>XORWithKeyStream\<close>'s loop. \<open>xorWords\<close> is the inner loop
  \<^verbatim>\<open>for i := 0; i+4 <= len(block); i += 4\<close>, \<open>xorRest\<close> the loop over the last one to three
  bytes, which shifts \<^verbatim>\<open>word\<close> right by 8 at each step. \<^verbatim>\<open>block\<close> and \<^verbatim>\<open>rest\<close> are slices
  of \<^verbatim>\<open>result\<close>, so writing to them writes to \<^verbatim>\<open>result\<close>: the model puts the processed
  block back in its place.
\<close>

definition xorWord :: "uint32 \<Rightarrow> byte list \<Rightarrow> nat \<Rightarrow> byte list" where
  "xorWord word block i =
     (let block = block[i := block ! i XOR ucast word];
          block = block[i + 1 := block ! (i + 1) XOR ucast (drop_bit 8 word)];
          block = block[i + 2 := block ! (i + 2) XOR ucast (drop_bit 16 word)];
          block = block[i + 3 := block ! (i + 3) XOR ucast (drop_bit 24 word)]
      in block)"

function xorWords :: "uint32 list \<Rightarrow> byte list \<Rightarrow> nat \<Rightarrow> byte list" where
  "xorWords keyStream block i =
     (if i + 4 \<le> length block
      then xorWords keyStream (xorWord (keyStream ! (drop_bit 2 i)) block i) (i + 4)
      else block)"
  by pat_completeness auto
termination
  by (relation "measure (\<lambda>(keyStream, block, i). length block + 4 - i)")
     (auto simp add: xorWord_def Let_def)

declare xorWords.simps [simp del]

fun xorRest :: "uint32 \<Rightarrow> byte list \<Rightarrow> byte list" where
  "xorRest word [] = []"
| "xorRest word (b # rest) = (b XOR ucast word) # xorRest (drop_bit 8 word) rest"

definition xorBlock :: "uint32 list \<Rightarrow> byte list \<Rightarrow> byte list" where
  "xorBlock keyStream block0 =
     (let block = xorWords keyStream block0 0;
          numProcessedBytes = length block AND 124
      in if numProcessedBytes < length block
         then (let keyStreamIndex = drop_bit 2 numProcessedBytes;
                   word = keyStream ! keyStreamIndex;
                   rest = drop numProcessedBytes block
               in take numProcessedBytes block @ xorRest word rest)
         else block)"

text \<open>One iteration of the loop \<^verbatim>\<open>for i := range numBlocks\<close> of \<^verbatim>\<open>XORWithKeyStream\<close>,
  on the pair of \<^verbatim>\<open>result\<close> and the instance; \<open>n\<close> is \<^verbatim>\<open>len(data)\<close>.\<close>

definition xorStep :: "nat \<Rightarrow> nat \<Rightarrow> byte list \<times> ChaCha20 \<Rightarrow> byte list \<times> ChaCha20" where
  "xorStep n i rc =
     (case rc of (result, c) \<Rightarrow>
        (case CreateBlock c of (keyStream, c) \<Rightarrow>
           (let lo = i * chacha20_BlockSize;
                hi = (if (i + 1) * chacha20_BlockSize < n
                      then (i + 1) * chacha20_BlockSize else length result);
                block = xorBlock keyStream (slice result lo hi)
            in (take lo result @ block @ drop hi result, c))))"

definition XORWithKeyStream :: "ChaCha20 \<Rightarrow> byte list \<Rightarrow> byte list \<times> ChaCha20" where
  "XORWithKeyStream c0 data =
     (let result = data;
          numBlocks = ceilDiv (length data) chacha20_BlockSize
      in fold (xorStep (length data)) [0..<numBlocks] (result, c0))"

subsection \<open>Package poly1305\<close>

text \<open>The fields \<^verbatim>\<open>r\<close> and \<^verbatim>\<open>s\<close> of the struct are \<open>poly_r\<close> and \<open>poly_s\<close>, and the
  package variable \<^verbatim>\<open>P\<close> is \<open>poly1305_P\<close>.\<close>

definition poly1305_BlockSize :: nat where
  "poly1305_BlockSize = 16"

definition poly1305_P :: int where
  "poly1305_P = 0x3fffffffffffffffffffffffffffffffb"

record Poly1305 =
  accum :: int
  poly_r :: int
  poly_s :: int

text \<open>\<^verbatim>\<open>(*big.Int).SetBytes\<close> reads a big-endian unsigned integer; \<^verbatim>\<open>(*big.Int).Bytes\<close>
  is the big-endian absolute value without leading zero bytes (no byte at all for 0).\<close>

definition SetBytes :: "byte list \<Rightarrow> int" where
  "SetBytes buf = foldl (\<lambda>acc b. acc * 256 + uint b) 0 buf"

function bytes_be :: "nat \<Rightarrow> byte list" where
  "bytes_be n = (if n = 0 then [] else bytes_be (n div 256) @ [of_nat (n mod 256)])"
  by pat_completeness auto
termination
  by (relation "measure id") auto

declare bytes_be.simps [simp del]

definition Bytes :: "int \<Rightarrow> byte list" where
  "Bytes x = bytes_be (nat \<bar>x\<bar>)"

definition clamp :: "byte list \<Rightarrow> byte list" where
  "clamp r0 =
     (let r = r0[3 := r0 ! 3 AND 15];
          r = r[7 := r ! 7 AND 15];
          r = r[11 := r ! 11 AND 15];
          r = r[15 := r ! 15 AND 15];
          r = r[4 := r ! 4 AND 252];
          r = r[8 := r ! 8 AND 252];
          r = r[12 := r ! 12 AND 252]
      in r)"

definition NewPoly1305 :: "byte list \<Rightarrow> Poly1305" where
  "NewPoly1305 keyb =
     (let r = copy_into (replicate 16 0) 0 16 (slice keyb 0 16);
          r = clamp r;
          rSlice = rev r;
          rBigInt = SetBytes rSlice;
          s = copy_into (replicate 16 0) 0 16 (slice keyb 16 32);
          sSlice = rev s;
          sBigInt = SetBytes sSlice
      in \<lparr>accum = 0, poly_r = rBigInt, poly_s = sBigInt\<rparr>)"

text \<open>One iteration of the loop \<^verbatim>\<open>for i := range numBlocks\<close> of \<^verbatim>\<open>GenerateTag\<close>, and
  its statement \<^verbatim>\<open>if len(result) < 16\<close>, which prepends zero bytes one at a time.\<close>

definition tagStep :: "byte list \<Rightarrow> nat \<Rightarrow> Poly1305 \<Rightarrow> Poly1305" where
  "tagStep data i p =
     (let block = (if (i + 1) * poly1305_BlockSize < length data
                   then slice data (i * poly1305_BlockSize) ((i + 1) * poly1305_BlockSize)
                   else drop (i * poly1305_BlockSize) data);
          blockCopy = block @ [0x01];
          n = SetBytes (rev blockCopy);
          a = accum p + n;
          a = a * poly_r p;
          a = a mod poly1305_P
      in p\<lparr>accum := a\<rparr>)"

definition leftPad16 :: "byte list \<Rightarrow> byte list" where
  "leftPad16 result =
     (if length result < 16
      then (let toPad = 16 - length result
            in fold (\<lambda>_ result. [0x00] @ result) [0..<toPad] result)
      else result)"

definition GenerateTag :: "Poly1305 \<Rightarrow> byte list \<Rightarrow> byte list \<times> Poly1305" where
  "GenerateTag p0 data =
     (let numBlocks = ceilDiv (length data) poly1305_BlockSize;
          p = fold (tagStep data) [0..<numBlocks] p0;
          result = Bytes (accum p + poly_s p);
          result = leftPad16 result;
          bytes = drop (length result - 16) result;
          bytes = rev bytes;
          tag = copy_into (replicate 16 0) 0 16 bytes
      in (tag, p))"

subsection \<open>Package chacha20poly1305\<close>

text \<open>\<^verbatim>\<open>ErrInvalidTag = Error("invalid Poly1305 tag")\<close>, a value of the string type
  \<^verbatim>\<open>Error\<close>. A Go result \<^verbatim>\<open>([]byte, error)\<close> is a pair whose second component is
  \<open>None\<close> for \<^verbatim>\<open>nil\<close>.\<close>

datatype Error = Error string

definition ErrInvalidTag :: Error where
  "ErrInvalidTag = Error ''invalid Poly1305 tag''"

text \<open>The fields \<^verbatim>\<open>key\<close> and \<^verbatim>\<open>nonce\<close> of the struct are \<open>aead_key\<close> and
  \<open>aead_nonce\<close>.\<close>

record ChaCha20Poly1305 =
  aead_key :: "byte list"
  aead_nonce :: "byte list"
  chacha20 :: ChaCha20
  poly1305 :: Poly1305

definition padTo16Bytes :: "byte list \<Rightarrow> byte list" where
  "padTo16Bytes data =
     (if length data mod 16 = 0 then data
      else (let toPad = 16 - (length data mod 16)
            in fold (\<lambda>_ result. result @ [0x00]) [0..<toPad] data))"

definition generatePoly1305Input :: "byte list \<Rightarrow> byte list \<Rightarrow> byte list" where
  "generatePoly1305Input aad ciphertext =
     (let paddedAad = padTo16Bytes aad;
          paddedCiphertext = padTo16Bytes ciphertext;
          aadLength = PutUint32 (replicate 8 0) (of_nat (length aad));
          cipertextLength = PutUint32 (replicate 8 0) (of_nat (length ciphertext));
          result = [];
          result = result @ paddedAad;
          result = result @ paddedCiphertext;
          result = result @ aadLength;
          result = result @ cipertextLength
      in result)"

definition poly1305KeyGen :: "ChaCha20 \<Rightarrow> byte list \<times> ChaCha20" where
  "poly1305KeyGen c =
     (case CreateBlock c of (block, c) \<Rightarrow>
        (let words = slice block 0 8;
             result = fold (\<lambda>i result. putWord result (i * 4) (words ! i))
                        [0..<length words] (replicate 32 0)
         in (result, c)))"

definition NewChaCha20Poly1305 :: "byte list \<Rightarrow> byte list \<Rightarrow> ChaCha20Poly1305" where
  "NewChaCha20Poly1305 keyb nonceb =
     (let counterb = [0x00, 0x00, 0x00, 0x00];
          c = NewChaCha20 keyb nonceb counterb
      in (case poly1305KeyGen c of (polyKey, c) \<Rightarrow>
            \<lparr>aead_key = keyb, aead_nonce = nonceb, chacha20 = c,
             poly1305 = NewPoly1305 polyKey\<rparr>))"

definition Encrypt ::
  "ChaCha20Poly1305 \<Rightarrow> byte list \<Rightarrow> byte list \<Rightarrow> (byte list \<times> byte list) \<times> ChaCha20Poly1305" where
  "Encrypt a plaintext aad =
     (case XORWithKeyStream (chacha20 a) plaintext of (ciphertext, c) \<Rightarrow>
        (let poly1305Input = generatePoly1305Input aad ciphertext
         in (case GenerateTag (poly1305 a) poly1305Input of (tag, p) \<Rightarrow>
               ((ciphertext, tag), a\<lparr>chacha20 := c, poly1305 := p\<rparr>))))"

definition Decrypt ::
  "ChaCha20Poly1305 \<Rightarrow> byte list \<Rightarrow> byte list \<Rightarrow> byte list
     \<Rightarrow> (byte list \<times> Error option) \<times> ChaCha20Poly1305" where
  "Decrypt a ciphertext aad tag =
     (let poly1305Input = generatePoly1305Input aad ciphertext
      in (case GenerateTag (poly1305 a) poly1305Input of (computedTag, p) \<Rightarrow>
            if tag \<noteq> computedTag
            then (([], Some ErrInvalidTag), a\<lparr>poly1305 := p\<rparr>)
            else (case XORWithKeyStream (chacha20 a) ciphertext of (plaintext, c) \<Rightarrow>
                    ((plaintext, None), a\<lparr>chacha20 := c, poly1305 := p\<rparr>))))"

subsection \<open>Package xchacha20\<close>

text \<open>Modelled from the spec: the method \<^verbatim>\<open>(*ChaCha20).TwentyRounds\<close>, which
  \<^verbatim>\<open>GenerateSubKey\<close> calls and whose source is missing. It "runs the same 20 rounds (10 double
  rounds)" on the state that \<^verbatim>\<open>NewChaCha20\<close> built and "skips the feed-forward addition".\<close>

definition TwentyRounds :: "ChaCha20 \<Rightarrow> uint32 list \<times> ChaCha20" where
  "TwentyRounds c0 = (let c = (doubleRound ^^ 10) c0 in (state c, c))"

record HChaCha20 =
  hchacha20_chacha20 :: ChaCha20

definition NewHChaCha20 :: "byte list \<Rightarrow> byte list \<Rightarrow> HChaCha20" where
  "NewHChaCha20 keyb nonceb =
     (let counterb = slice nonceb 0 4;
          slicedNonce = slice nonceb 4 16
      in \<lparr>hchacha20_chacha20 = NewChaCha20 keyb slicedNonce counterb\<rparr>)"

definition GenerateSubKey :: "HChaCha20 \<Rightarrow> byte list \<times> HChaCha20" where
  "GenerateSubKey h =
     (case TwentyRounds (hchacha20_chacha20 h) of (st, c) \<Rightarrow>
        (let firstRow = slice st 0 4;
             lastRow = slice st 12 16;
             k = replicate 32 0;
             k = fold (\<lambda>i k. putWord k (i * 4) (firstRow ! i)) [0..<length firstRow] k;
             k = fold (\<lambda>i k. putWord k (i * 4 + 16) (lastRow ! i)) [0..<length lastRow] k
         in (k, h\<lparr>hchacha20_chacha20 := c\<rparr>)))"

record XChaCha20 =
  xchacha20_chacha20 :: ChaCha20

definition NewXChaCha20 :: "byte list \<Rightarrow> byte list \<Rightarrow> byte list \<Rightarrow> XChaCha20" where
  "NewXChaCha20 keyb nonceb counterb =
     (let hChaChaNonce = slice nonceb 0 16;
          hCha = NewHChaCha20 keyb hChaChaNonce;
          subKey = fst (GenerateSubKey hCha);
          chaChaNonce = [0x00, 0x00, 0x00, 0x00] @ slice nonceb 16 24
      in \<lparr>xchacha20_chacha20 = NewChaCha20 subKey chaChaNonce counterb\<rparr>)"

definition XChaCha20_XORWithKeyStream :: "XChaCha20 \<Rightarrow> byte list \<Rightarrow> byte list \<times> XChaCha20" where
  "XChaCha20_XORWithKeyStream x data =
     (case XORWithKeyStream (xchacha20_chacha20 x) data of
        (result, c) \<Rightarrow> (result, x\<lparr>xchacha20_chacha20 := c\<rparr>))"

text \<open>Modelled from the spec: the method \<^verbatim>\<open>(*XChaCha20).CreateBlock\<close>, which
  \<^verbatim>\<open>NewXChaCha20Poly1305\<close> calls and whose source is missing. XChaCha20 "delegates directly
  to the underlying ChaCha20 core".\<close>

definition XChaCha20_CreateBlock :: "XChaCha20 \<Rightarrow> uint32 list \<times> XChaCha20" where
  "XChaCha20_CreateBlock x =
     (case CreateBlock (xchacha20_chacha20 x) of
        (block, c) \<Rightarrow> (block, x\<lparr>xchacha20_chacha20 := c\<rparr>))"

subsection \<open>Package xchacha20poly1305\<close>

text \<open>Modelled from the spec: the exported functions \<^verbatim>\<open>chacha20poly1305.Poly1305KeyGen\<close>
  and \<^verbatim>\<open>chacha20poly1305.GeneratePoly1305Input\<close>, whose source is missing. The first
  takes the block already produced and returns "its first 32 bytes"; the second builds the
  authenticated input, for which "all other framing, key-derivation, and verify-ordering
  rules are unchanged".\<close>

definition Poly1305KeyGen :: "uint32 list \<Rightarrow> byte list" where
  "Poly1305KeyGen block =
     (let words = slice block 0 8
      in fold (\<lambda>i result. putWord result (i * 4) (words ! i)) [0..<length words] (replicate 32 0))"

definition GeneratePoly1305Input :: "byte list \<Rightarrow> byte list \<Rightarrow> byte list" where
  "GeneratePoly1305Input aad ciphertext = generatePoly1305Input aad ciphertext"

text \<open>The field \<^verbatim>\<open>poly1305\<close> of the struct is \<open>xpoly1305\<close>.\<close>

record XChaCha20Poly1305 =
  xchacha20 :: XChaCha20
  xpoly1305 :: Poly1305

definition NewXChaCha20Poly1305 :: "byte list \<Rightarrow> byte list \<Rightarrow> XChaCha20Poly1305" where
  "NewXChaCha20Poly1305 keyb nonceb =
     (let counterb = [0x00, 0x00, 0x00, 0x00];
          x = NewXChaCha20 keyb nonceb counterb
      in (case XChaCha20_CreateBlock x of (firstBlock, x) \<Rightarrow>
            (let polyKey = Poly1305KeyGen firstBlock
             in \<lparr>xchacha20 = x, xpoly1305 = NewPoly1305 polyKey\<rparr>)))"

definition XEncrypt ::
  "XChaCha20Poly1305 \<Rightarrow> byte list \<Rightarrow> byte list \<Rightarrow> (byte list \<times> byte list) \<times> XChaCha20Poly1305" where
  "XEncrypt a plaintext aad =
     (case XChaCha20_XORWithKeyStream (xchacha20 a) plaintext of (ciphertext, x) \<Rightarrow>
        (let poly1305Input = GeneratePoly1305Input aad ciphertext
         in (case GenerateTag (xpoly1305 a) poly1305Input of (tag, p) \<Rightarrow>
               ((ciphertext, tag), a\<lparr>xchacha20 := x, xpoly1305 := p\<rparr>))))"

definition XDecrypt ::
  "XChaCha20Poly1305 \<Rightarrow> byte list \<Rightarrow> byte list \<Rightarrow> byte list
     \<Rightarrow> (byte list \<times> Error option) \<times> XChaCha20Poly1305" where
  "XDecrypt a ciphertext aad tag =
     (let poly1305Input = GeneratePoly1305Input aad ciphertext
      in (case GenerateTag (xpoly1305 a) poly1305Input of (computedTag, p) \<Rightarrow>
            if tag \<noteq> computedTag
            then (([], Some ErrInvalidTag), a\<lparr>xpoly1305 := p\<rparr>)
            else (case XChaCha20_XORWithKeyStream (xchacha20 a) ciphertext of (plaintext, x) \<Rightarrow>
                    ((plaintext, None), a\<lparr>xchacha20 := x, xpoly1305 := p\<rparr>))))"

section \<open>What the specification says\<close>

text \<open>
  Definitions written from the words of the specification, on natural numbers, with every
  reduction modulo \<open>2 ^ 32\<close> written out. The theorems below compare them with the
  definitions above, which follow the source.
\<close>

subsection \<open>The ChaCha20 block function\<close>

definition spec_add32 :: "nat \<Rightarrow> nat \<Rightarrow> nat" where
  "spec_add32 a b = (a + b) mod 2 ^ 32"

definition spec_rotl32 :: "nat \<Rightarrow> nat \<Rightarrow> nat" where
  "spec_rotl32 x k = (x * 2 ^ k) mod 2 ^ 32 + x div 2 ^ (32 - k)"

text \<open>\<^verbatim>\<open>a+=b; d^=a; d=rotl(d,16); c+=d; b^=c; b=rotl(b,12); a+=b; d^=a; d=rotl(d,8);
  c+=d; b^=c; b=rotl(b,7)\<close>.\<close>

definition spec_quarter_round :: "nat \<times> nat \<times> nat \<times> nat \<Rightarrow> nat \<times> nat \<times> nat \<times> nat" where
  "spec_quarter_round q = (case q of (a, b, c, d) \<Rightarrow>
    (let a = spec_add32 a b; d = d XOR a; d = spec_rotl32 d 16;
         c = spec_add32 c d; b = b XOR c; b = spec_rotl32 b 12;
         a = spec_add32 a b; d = d XOR a; d = spec_rotl32 d 8;
         c = spec_add32 c d; b = b XOR c; b = spec_rotl32 b 7
     in (a, b, c, d)))"

definition spec_quarter_on :: "nat \<times> nat \<times> nat \<times> nat \<Rightarrow> nat list \<Rightarrow> nat list" where
  "spec_quarter_on g st = (case g of (x, y, z, w) \<Rightarrow>
     (case spec_quarter_round (st ! x, st ! y, st ! z, st ! w) of
        (a, b, c, d) \<Rightarrow> st[x := a, y := b, z := c, w := d]))"

definition spec_column_round :: "nat list \<Rightarrow> nat list" where
  "spec_column_round = fold spec_quarter_on [(0,4,8,12), (1,5,9,13), (2,6,10,14), (3,7,11,15)]"

definition spec_diagonal_round :: "nat list \<Rightarrow> nat list" where
  "spec_diagonal_round = fold spec_quarter_on [(0,5,10,15), (1,6,11,12), (2,7,8,13), (3,4,9,14)]"

definition spec_double_round :: "nat list \<Rightarrow> nat list" where
  "spec_double_round st = spec_diagonal_round (spec_column_round st)"

text \<open>A little-endian byte string as a number, and a list cut into consecutive pieces of
  at most \<open>k\<close> elements.\<close>

definition spec_le_nat :: "byte list \<Rightarrow> nat" where
  "spec_le_nat bs = foldr (\<lambda>b n. unat b + 256 * n) bs 0"

function spec_chunks :: "nat \<Rightarrow> 'a list \<Rightarrow> 'a list list" where
  "spec_chunks k xs = (if k = 0 \<or> xs = [] then [] else take k xs # spec_chunks k (drop k xs))"
  by pat_completeness auto
termination
  by (relation "measure (\<lambda>(k, xs). length xs)") auto

declare spec_chunks.simps [simp del]

text \<open>The constant words are the text "expand 32-byte k", four bytes to a little-endian
  word.\<close>

definition spec_constants :: "nat list" where
  "spec_constants = map (\<lambda>w. spec_le_nat (map of_char w)) (spec_chunks 4 ''expand 32-byte k'')"

definition spec_initial_state :: "nat list \<Rightarrow> nat \<Rightarrow> nat list \<Rightarrow> nat list" where
  "spec_initial_state key_words ctr nonce_words = spec_constants @ key_words @ [ctr] @ nonce_words"

definition spec_block :: "nat list \<Rightarrow> nat \<Rightarrow> nat list \<Rightarrow> nat list" where
  "spec_block key_words ctr nonce_words =
     (let init = spec_initial_state key_words ctr nonce_words
      in map2 spec_add32 ((spec_double_round ^^ 10) init) init)"


subsection \<open>The keystream\<close>

text \<open>Byte \<open>j\<close> of a block of words, each word serialised low byte first; the block that an
  instance produces \<open>i\<close> blocks after its current counter; and byte \<open>j\<close> of the keystream
  that starts at the instance's current counter.\<close>

definition spec_block_byte :: "uint32 list \<Rightarrow> nat \<Rightarrow> byte" where
  "spec_block_byte ks j = ucast (drop_bit (8 * (j mod 4)) (ks ! (j div 4)))"

definition blockAt :: "ChaCha20 \<Rightarrow> nat \<Rightarrow> uint32 list" where
  "blockAt c i = fst (CreateBlock (c\<lparr>counter := counter c + of_nat i\<rparr>))"

definition spec_keystream_byte :: "ChaCha20 \<Rightarrow> nat \<Rightarrow> byte" where
  "spec_keystream_byte c j = spec_block_byte (blockAt c (j div 64)) (j mod 64)"

definition spec_xor_stream :: "ChaCha20 \<Rightarrow> byte list \<Rightarrow> byte list" where
  "spec_xor_stream c data = map (\<lambda>j. data ! j XOR spec_keystream_byte c j) [0..<length data]"


text \<open>The invariant of the loop of \<^verbatim>\<open>XORWithKeyStream\<close> after \<open>n\<close> iterations: the first
  \<open>64 * n\<close> bytes are encrypted, the others are untouched, and the counter has advanced by
  \<open>n\<close>.\<close>

definition xor_inv :: "ChaCha20 \<Rightarrow> byte list \<Rightarrow> nat \<Rightarrow> byte list \<times> ChaCha20 \<Rightarrow> bool" where
  "xor_inv c0 data n rc \<longleftrightarrow>
     length (fst rc) = length data \<and> key (snd rc) = key c0 \<and> nonce (snd rc) = nonce c0 \<and>
     counter (snd rc) = counter c0 + of_nat n \<and>
     (\<forall>j < length data. fst rc ! j =
        (if j < 64 * n then data ! j XOR spec_keystream_byte c0 j else data ! j))"


subsection \<open>Poly1305\<close>

text \<open>The little-endian serialisation of a number into \<open>k\<close> bytes; the clamp of \<open>r\<close>,
  byte by byte; the accumulator after the blocks of a message, each block read with a byte
  \<open>0x01\<close> appended; and the tag.\<close>

primrec spec_le_bytes :: "nat \<Rightarrow> nat \<Rightarrow> byte list" where
  "spec_le_bytes 0 n = []"
| "spec_le_bytes (Suc k) n = of_nat (n mod 256) # spec_le_bytes k (n div 256)"

definition spec_clamp :: "byte list \<Rightarrow> byte list" where
  "spec_clamp bs = map (\<lambda>(i, b). if i \<in> {3, 7, 11, 15} then b AND 0x0f
                                  else if i \<in> {4, 8, 12} then b AND 0xfc else b)
                       (zip [0..<length bs] bs)"

definition spec_poly1305_blocks :: "int \<Rightarrow> int \<Rightarrow> byte list \<Rightarrow> int" where
  "spec_poly1305_blocks r acc msg =
     foldl (\<lambda>acc blk. ((acc + int (spec_le_nat (blk @ [0x01]))) * r) mod (2 ^ 130 - 5)) acc
           (spec_chunks 16 msg)"

definition spec_poly1305_tag :: "int \<Rightarrow> int \<Rightarrow> int \<Rightarrow> byte list \<Rightarrow> byte list" where
  "spec_poly1305_tag r s acc msg =
     spec_le_bytes 16 (nat ((spec_poly1305_blocks r acc msg + s) mod 2 ^ 128))"


subsection \<open>The AEAD framing\<close>

text \<open>The bytes of a word and of a block of words, each word low byte first; the zero bytes
  that pad a string to a multiple of 16; and the authenticated input: the associated data,
  its padding, the ciphertext, its padding, and the two lengths as 8-byte little-endian
  integers.\<close>

definition spec_word_bytes :: "uint32 \<Rightarrow> byte list" where
  "spec_word_bytes w = spec_le_bytes 4 (unat w)"

definition spec_block_bytes :: "uint32 list \<Rightarrow> byte list" where
  "spec_block_bytes ks = concat (map spec_word_bytes ks)"

definition spec_zero_pad16 :: "byte list \<Rightarrow> byte list" where
  "spec_zero_pad16 xs = replicate ((16 - length xs mod 16) mod 16) 0"

definition spec_authenticated_input :: "byte list \<Rightarrow> byte list \<Rightarrow> byte list" where
  "spec_authenticated_input aad ciphertext =
     aad @ spec_zero_pad16 aad @ ciphertext @ spec_zero_pad16 ciphertext @
     spec_le_bytes 8 (length aad) @ spec_le_bytes 8 (length ciphertext)"


subsection \<open>HChaCha20\<close>

text \<open>The state of the subkey derivation: the constants, the eight words of the key, and the
  four words of the 16-byte nonce in the last row. The subkey: ten double rounds on that
  state and no addition of the initial state; then words 0 to 3 and words 12 to 15, each low
  byte first.\<close>

definition spec_hchacha20_state :: "byte list \<Rightarrow> byte list \<Rightarrow> nat list" where
  "spec_hchacha20_state keyb nonceb =
     spec_constants @ map spec_le_nat (spec_chunks 4 keyb) @ map spec_le_nat (spec_chunks 4 nonceb)"

definition spec_hchacha20 :: "byte list \<Rightarrow> byte list \<Rightarrow> byte list" where
  "spec_hchacha20 keyb nonceb =
     (let st = (spec_double_round ^^ 10) (spec_hchacha20_state keyb nonceb)
      in concat (map (spec_le_bytes 4) (take 4 st @ drop 12 st)))"


subsection \<open>The tag of the AEAD\<close>



definition spec_poly1305_mac :: "byte list \<Rightarrow> byte list \<Rightarrow> byte list" where
  "spec_poly1305_mac otk msg =
     spec_poly1305_tag (int (spec_le_nat (spec_clamp (take 16 otk)))) (int (spec_le_nat (drop 16 otk)))
       0 msg"



section \<open>Test vectors\<close>

text \<open>The key and the nonce of RFC 8439, section 2.3.2.\<close>

definition rfc8439_key :: "byte list" where
  "rfc8439_key =
     [0x00, 0x01, 0x02, 0x03, 0x04, 0x05, 0x06, 0x07, 0x08, 0x09, 0x0a, 0x0b, 0x0c, 0x0d, 0x0e, 0x0f,
      0x10, 0x11, 0x12, 0x13, 0x14, 0x15, 0x16, 0x17, 0x18, 0x19, 0x1a, 0x1b, 0x1c, 0x1d, 0x1e, 0x1f]"

definition rfc8439_nonce :: "byte list" where
  "rfc8439_nonce = [0x00, 0x00, 0x00, 0x09, 0x00, 0x00, 0x00, 0x4a, 0x00, 0x00, 0x00, 0x00]"

text \<open>The key and the message of RFC 8439, section 2.5.2.\<close>

definition rfc8439_poly1305_key :: "byte list" where
  "rfc8439_poly1305_key =
     [0x85, 0xd6, 0xbe, 0x78, 0x57, 0x55, 0x6d, 0x33, 0x7f, 0x44, 0x52, 0xfe, 0x42, 0xd5, 0x06, 0xa8,
      0x01, 0x03, 0x80, 0x8a, 0xfb, 0x0d, 0xb2, 0xfd, 0x4a, 0xbf, 0xf6, 0xaf, 0x41, 0x49, 0xf5, 0x1b]"

definition rfc8439_poly1305_msg :: "byte list" where
  "rfc8439_poly1305_msg = map of_char ''Cryptographic Forum Research Group''"


text \<open>An instance whose counter has its largest value, and a message of two blocks.\<close>

definition wrap_instance :: ChaCha20 where
  "wrap_instance = NewChaCha20 (replicate 32 0) (replicate 12 0) [0xff, 0xff, 0xff, 0xff]"

definition wrap_data :: "byte list" where
  "wrap_data = replicate 65 0"


text \<open>The key, the nonce and the associated data of RFC 8439, section 2.8.2, the nonce of
  draft-irtf-cfrg-xchacha-03, section A.3.1, and a short message.\<close>

definition rfc8439_aead_key :: "byte list" where
  "rfc8439_aead_key =
     [0x80, 0x81, 0x82, 0x83, 0x84, 0x85, 0x86, 0x87, 0x88, 0x89, 0x8a, 0x8b, 0x8c, 0x8d, 0x8e, 0x8f,
      0x90, 0x91, 0x92, 0x93, 0x94, 0x95, 0x96, 0x97, 0x98, 0x99, 0x9a, 0x9b, 0x9c, 0x9d, 0x9e, 0x9f]"

definition rfc8439_aead_nonce :: "byte list" where
  "rfc8439_aead_nonce = [0x07, 0x00, 0x00, 0x00, 0x40, 0x41, 0x42, 0x43, 0x44, 0x45, 0x46, 0x47]"

definition xchacha_aead_nonce :: "byte list" where
  "xchacha_aead_nonce =
     [0x40, 0x41, 0x42, 0x43, 0x44, 0x45, 0x46, 0x47, 0x48, 0x49, 0x4a, 0x4b,
      0x4c, 0x4d, 0x4e, 0x4f, 0x50, 0x51, 0x52, 0x53, 0x54, 0x55, 0x56, 0x57]"

definition rfc8439_aead_aad :: "byte list" where
  "rfc8439_aead_aad = [0x50, 0x51, 0x52, 0x53, 0xc0, 0xc1, 0xc2, 0xc3, 0xc4, 0xc5, 0xc6, 0xc7]"

definition test_message :: "byte list" where
  "test_message = map of_char ''sunscreen would be it.''"


text \<open>Associated data of \<open>2 ^ 32\<close> bytes, and a message one byte longer than \<open>2 ^ 32 - 1\<close>
  blocks.\<close>

definition long_aad :: "byte list" where
  "long_aad = replicate (2 ^ 32) 0"

definition long_message :: "byte list" where
  "long_message = replicate ((2 ^ 32 - 1) * 64 + 1) 0"

text \<open>The nonce of draft-irtf-cfrg-xchacha, section 2.2.1; the key there is \<open>rfc8439_key\<close>.\<close>

definition hchacha20_nonce :: "byte list" where
  "hchacha20_nonce = [0x00, 0x00, 0x00, 0x09, 0x00, 0x00, 0x00, 0x4a,
                      0x00, 0x00, 0x00, 0x00, 0x31, 0x41, 0x59, 0x27]"

section \<open>Verification\<close>

subsection \<open>The quarter round on words and on numbers\<close>

lemma RotateLeft32_disjoint:
  assumes "k < 32"
  shows "push_bit k (x::uint32) AND drop_bit (32 - k) x = 0"
proof (rule bit_eqI)
  fix n
  have "\<not> (bit (push_bit k x) n \<and> bit (drop_bit (32 - k) x) n)"
  proof
    assume h: "bit (push_bit k x) n \<and> bit (drop_bit (32 - k) x) n"
    then have "k \<le> n" by (simp add: bit_push_bit_iff)
    moreover from h have "bit x (32 - k + n)" by (simp add: bit_drop_bit_eq)
    then have "32 - k + n < 32" using bit_imp_le_length[of x "32 - k + n"] by simp
    ultimately show False using assms by simp
  qed
  then show "bit (push_bit k x AND drop_bit (32 - k) x) n = bit (0::uint32) n"
    by (simp add: bit_and_iff)
qed

lemma unat_RotateLeft32:
  assumes "0 < k" "k < 32"
  shows "unat (RotateLeft32 x k) = spec_rotl32 (unat x) k"
proof -
  have lt: "unat x div 2 ^ (32 - k) < 2 ^ k"
  proof -
    have "unat x < 2 ^ (32 - k) * 2 ^ k"
      using unsigned_less[of x] assms by (simp flip: power_add)
    then show ?thesis by (simp add: less_mult_imp_div_less mult.commute)
  qed
  have "unat (push_bit k x OR drop_bit (32 - k) x) = unat (push_bit k x + drop_bit (32 - k) x)"
    using disjunctive_add_eq_or[OF RotateLeft32_disjoint[of k x]] assms by simp
  also have "\<dots> = (unat (push_bit k x) + unat (drop_bit (32 - k) x)) mod 2 ^ 32"
    by (simp add: unat_word_ariths)
  also have "unat (push_bit k x) = (unat x * 2 ^ k) mod 2 ^ 32"
    by (simp add: unsigned_push_bit_eq take_bit_nat_def push_bit_nat_def)
  also have "unat (drop_bit (32 - k) x) = unat x div 2 ^ (32 - k)"
    by (simp add: unat_drop_bit_eq drop_bit_nat_def)
  finally have e: "unat (push_bit k x OR drop_bit (32 - k) x) =
      ((unat x * 2 ^ k) mod 2 ^ 32 + unat x div 2 ^ (32 - k)) mod 2 ^ 32" .
  have "(unat x * 2 ^ k) mod 2 ^ 32 + unat x div 2 ^ (32 - k) < 2 ^ 32"
  proof -
    have "(unat x * 2 ^ k) mod 2 ^ 32 = 2 ^ k * (unat x mod 2 ^ (32 - k))"
      using assms mult_exp_mod_exp_eq[of k 32 "unat x"] by (simp add: mult.commute)
    moreover have "unat x mod 2 ^ (32 - k) \<le> 2 ^ (32 - k) - 1"
    proof -
      have "unat x mod 2 ^ (32 - k) < 2 ^ (32 - k)" by simp
      then show ?thesis by linarith
    qed
    then have "2 ^ k * (unat x mod 2 ^ (32 - k)) \<le> 2 ^ k * (2 ^ (32 - k) - 1)"
      by (rule mult_le_mono2)
    moreover have "(2::nat) ^ k * (2 ^ (32 - k) - 1) = 2 ^ 32 - 2 ^ k"
      using assms by (simp add: algebra_simps flip: power_add)
    moreover have "(2::nat) ^ k \<le> 2 ^ 32"
      using assms power_increasing[of k 32 "2::nat"] by simp
    ultimately show ?thesis using lt by linarith
  qed
  with e show ?thesis using assms by (simp add: RotateLeft32_def spec_rotl32_def)
qed

lemma unat_quarterRound:
  "map_prod unat (map_prod unat (map_prod unat unat)) (quarterRound a b c d) =
     spec_quarter_round (unat a, unat b, unat c, unat d)"
  by (simp add: quarterRound_def spec_quarter_round_def Let_def unat_RotateLeft32
        unsigned_xor_eq spec_add32_def unat_word_ariths)


lemma spec_constants_eval: "spec_constants = [0x61707865, 0x3320646e, 0x79622d32, 0x6b206574]"
  by (simp add: spec_constants_def spec_chunks.simps spec_le_nat_def)

lemma quarterRoundAt_fields [simp]:
  "counter (quarterRoundAt x y z w c) = counter c"
  "key (quarterRoundAt x y z w c) = key c"
  "nonce (quarterRoundAt x y z w c) = nonce c"
  "length (state (quarterRoundAt x y z w c)) = length (state c)"
  by (simp_all add: quarterRoundAt_def split: prod.splits)

lemma quarterRoundAt_unat:
  assumes "x < length (state c)" "y < length (state c)" "z < length (state c)" "w < length (state c)"
  shows "map unat (state (quarterRoundAt x y z w c)) = spec_quarter_on (x, y, z, w) (map unat (state c))"
proof -
  obtain a b c' d where q: "quarterRound (state c ! x) (state c ! y) (state c ! z) (state c ! w) = (a, b, c', d)"
    by (metis prod_cases4)
  from unat_quarterRound[of "state c ! x" "state c ! y" "state c ! z" "state c ! w"] q
  have "spec_quarter_round (unat (state c ! x), unat (state c ! y), unat (state c ! z), unat (state c ! w))
        = (unat a, unat b, unat c', unat d)" by simp
  with q assms show ?thesis
    by (simp add: quarterRoundAt_def spec_quarter_on_def map_update)
qed

lemma columnRound_fields [simp]:
  "counter (columnRound c) = counter c" "key (columnRound c) = key c"
  "nonce (columnRound c) = nonce c" "length (state (columnRound c)) = length (state c)"
  by (simp_all add: columnRound_def)

lemma diagonalRound_fields [simp]:
  "counter (diagonalRound c) = counter c" "key (diagonalRound c) = key c"
  "nonce (diagonalRound c) = nonce c" "length (state (diagonalRound c)) = length (state c)"
  by (simp_all add: diagonalRound_def)

lemma doubleRound_fields [simp]:
  "counter (doubleRound c) = counter c" "key (doubleRound c) = key c"
  "nonce (doubleRound c) = nonce c" "length (state (doubleRound c)) = length (state c)"
  by (simp_all add: doubleRound_def)

lemma columnRound_unat:
  assumes "length (state c) = 16"
  shows "map unat (state (columnRound c)) = spec_column_round (map unat (state c))"
  using assms by (simp add: columnRound_def spec_column_round_def quarterRoundAt_unat)

lemma diagonalRound_unat:
  assumes "length (state c) = 16"
  shows "map unat (state (diagonalRound c)) = spec_diagonal_round (map unat (state c))"
  using assms by (simp add: diagonalRound_def spec_diagonal_round_def quarterRoundAt_unat)

lemma doubleRound_unat:
  assumes "length (state c) = 16"
  shows "map unat (state (doubleRound c)) = spec_double_round (map unat (state c))"
  using assms by (simp add: doubleRound_def spec_double_round_def columnRound_unat diagonalRound_unat)

lemma doubleRound_pow_fields [simp]:
  "counter ((doubleRound ^^ n) c) = counter c" "key ((doubleRound ^^ n) c) = key c"
  "nonce ((doubleRound ^^ n) c) = nonce c" "length (state ((doubleRound ^^ n) c)) = length (state c)"
  by (induction n) simp_all

lemma doubleRound_pow_unat:
  assumes "length (state c) = 16"
  shows "map unat (state ((doubleRound ^^ n) c)) = (spec_double_round ^^ n) (map unat (state c))"
  using assms by (induction n) (simp_all add: doubleRound_unat)

lemma feed_forward_take:
  assumes "n \<le> length st" "length st = length old"
  shows "fold (\<lambda>i st. st[i := st ! i + old ! i]) [0..<n] st
           = map2 (+) (take n st) (take n old) @ drop n st"
  using assms
proof (induction n)
  case 0
  then show ?case by simp
next
  case (Suc n)
  then have n: "n < length st" "n < length old" by simp_all
  have "fold (\<lambda>i st. st[i := st ! i + old ! i]) [0..<Suc n] st
         = (map2 (+) (take n st) (take n old) @ drop n st)
             [n := (map2 (+) (take n st) (take n old) @ drop n st) ! n + old ! n]"
    using Suc by simp
  also have "\<dots> = map2 (+) (take n st) (take n old) @ (st ! n + old ! n) # drop (Suc n) st"
    using n by (simp add: nth_append list_update_append Cons_nth_drop_Suc[symmetric])
  also have "\<dots> = map2 (+) (take (Suc n) st) (take (Suc n) old) @ drop (Suc n) st"
    using n by (simp add: take_Suc_conv_app_nth)
  finally show ?case .
qed

lemma feed_forward_map2:
  assumes "length st = length old"
  shows "fold (\<lambda>i st. st[i := st ! i + old ! i]) [0..<length old] st = map2 (+) st old"
  using feed_forward_take[of "length old" st old] assms by simp

lemma length_copy_into [simp]:
  "hi \<le> length dst \<Longrightarrow> lo \<le> hi \<Longrightarrow> length (copy_into dst lo hi src) = length dst"
  by (auto simp add: copy_into_def Let_def min_def)

lemma length_initState [simp]: "length (initState k n c) = 16"
  by (simp add: initState_def Let_def)

lemma initState_layout:
  assumes "length k = 8" "length n = 3"
  shows "initState k n c = [0x61707865, 0x3320646e, 0x79622d32, 0x6b206574] @ k @ [c] @ n"
proof -
  have r: "replicate 16 (0::uint32) = [0,0,0,0,0,0,0,0,0,0,0,0,0,0,0,0]"
    by (simp add: eval_nat_numeral)
  show ?thesis using assms by (simp add: initState_def Let_def copy_into_def list_update_append r)
qed

lemma initState_unat:
  assumes "length k = 8" "length n = 3"
  shows "map unat (initState k n c) = spec_initial_state (map unat k) (unat c) (map unat n)"
  using assms by (simp add: initState_layout spec_initial_state_def spec_constants_eval)

lemma map2_unat_add:
  "length xs = length ys \<Longrightarrow> map unat (map2 (+) xs (ys::uint32 list)) = map2 spec_add32 (map unat xs) (map unat ys)"
  by (induction xs ys rule: list_induct2) (simp_all add: spec_add32_def unat_word_ariths)

lemma CreateBlock_fields [simp]:
  "counter (snd (CreateBlock c)) = counter c + 1"
  "key (snd (CreateBlock c)) = key c"
  "nonce (snd (CreateBlock c)) = nonce c"
  "state (snd (CreateBlock c)) = fst (CreateBlock c)"
  by (simp_all add: CreateBlock_def Let_def)

lemma CreateBlock_block:
  "fst (CreateBlock c) =
     map2 (+) (state ((doubleRound ^^ 10) (c\<lparr>state := initState (key c) (nonce c) (counter c)\<rparr>)))
              (initState (key c) (nonce c) (counter c))"
  by (simp add: CreateBlock_def Let_def feed_forward_map2)

lemma CreateBlock_unat:
  assumes "length (key c) = 8" "length (nonce c) = 3"
  shows "map unat (fst (CreateBlock c)) = spec_block (map unat (key c)) (unat (counter c)) (map unat (nonce c))"
proof -
  let ?i = "initState (key c) (nonce c) (counter c)"
  let ?c = "c\<lparr>state := ?i\<rparr>"
  have "map unat (fst (CreateBlock c)) = map2 spec_add32 (map unat (state ((doubleRound ^^ 10) ?c))) (map unat ?i)"
    unfolding CreateBlock_block by (rule map2_unat_add) simp
  also have "map unat (state ((doubleRound ^^ 10) ?c)) = (spec_double_round ^^ 10) (map unat ?i)"
    using doubleRound_pow_unat[of ?c 10] by simp
  finally show ?thesis using assms by (simp add: initState_unat spec_block_def Let_def)
qed


lemma or_push_bit_add:
  assumes "(a::nat) < 2 ^ n"
  shows "a OR push_bit n b = a + push_bit n b"
proof (rule disjunctive_add[symmetric])
  fix m
  have "take_bit n a = a" using assms by (simp add: take_bit_nat_eq_self)
  then have "bit a m \<Longrightarrow> m < n" by (metis bit_take_bit_iff)
  then show "\<not> bit a m \<or> \<not> bit (push_bit n b) m"
    by (auto simp add: bit_push_bit_iff)
qed

lemma unat_byte_less: "unat (b::byte) < 256"
proof -
  have "unat b < 2 ^ LENGTH(8)" by (rule unsigned_less)
  then show ?thesis by simp
qed

lemma unat_ucast_byte: "unat (ucast (b::byte) :: uint32) = unat b"
proof -
  have "unat b < 2 ^ 32" using unat_byte_less[of b] by simp
  then show ?thesis by (simp add: unsigned_ucast_eq take_bit_nat_eq_self)
qed

lemma unat_push_bit_byte:
  assumes "k \<le> 24"
  shows "unat (push_bit k (ucast (b::byte) :: uint32)) = push_bit k (unat b)"
proof -
  have "unat b * 2 ^ k < 2 ^ 8 * 2 ^ k" using unat_byte_less[of b] by simp
  also have "\<dots> = (2::nat) ^ (8 + k)" by (simp add: power_add)
  also have "\<dots> \<le> 2 ^ 32" using assms by (intro power_increasing) simp_all
  finally have "push_bit k (unat b) < 2 ^ 32" by (simp add: push_bit_nat_def)
  then show ?thesis
    by (simp add: unsigned_push_bit_eq unat_ucast_byte take_bit_nat_eq_self)
qed

lemma unat_Uint32_bytes:
  "unat (Uint32 [b0, b1, b2, b3]) = unat b0 + 256 * (unat b1 + 256 * (unat b2 + 256 * unat b3))"
proof -
  have l0: "unat b0 < 2 ^ 8" and l1: "unat b1 < 2 ^ 8" and l2: "unat b2 < 2 ^ 8"
    using unat_byte_less[of b0] unat_byte_less[of b1] unat_byte_less[of b2] by simp_all
  have e1: "unat b0 OR push_bit 8 (unat b1) = unat b0 + push_bit 8 (unat b1)"
    using l0 by (rule or_push_bit_add)
  have "unat b0 + push_bit 8 (unat b1) < 2 ^ 16"
    using l0 l1 by (simp add: push_bit_nat_def)
  then have e2: "(unat b0 + push_bit 8 (unat b1)) OR push_bit 16 (unat b2)
       = unat b0 + push_bit 8 (unat b1) + push_bit 16 (unat b2)"
    by (rule or_push_bit_add)
  have "unat b0 + push_bit 8 (unat b1) + push_bit 16 (unat b2) < 2 ^ 24"
    using l0 l1 l2 by (simp add: push_bit_nat_def)
  then have e3: "(unat b0 + push_bit 8 (unat b1) + push_bit 16 (unat b2)) OR push_bit 24 (unat b3)
       = unat b0 + push_bit 8 (unat b1) + push_bit 16 (unat b2) + push_bit 24 (unat b3)"
    by (rule or_push_bit_add)
  have "unat (Uint32 [b0, b1, b2, b3]) =
     ((unat b0 OR push_bit 8 (unat b1)) OR push_bit 16 (unat b2)) OR push_bit 24 (unat b3)"
    by (simp add: Uint32_def unsigned_or_eq unat_ucast_byte unat_push_bit_byte)
  also have "\<dots> = unat b0 + push_bit 8 (unat b1) + push_bit 16 (unat b2) + push_bit 24 (unat b3)"
    by (simp only: e1 e2 e3)
  finally show ?thesis by (simp add: push_bit_nat_def)
qed

lemma list4_cases:
  assumes "length (b::'a list) = 4"
  obtains b0 b1 b2 b3 where "b = [b0, b1, b2, b3]"
  using assms by (auto simp add: length_Suc_conv eval_nat_numeral)

lemma unat_Uint32:
  assumes "length b = 4"
  shows "unat (Uint32 b) = spec_le_nat b"
proof -
  from assms obtain b0 b1 b2 b3 where "b = [b0, b1, b2, b3]" by (rule list4_cases)
  then show ?thesis by (simp add: unat_Uint32_bytes spec_le_nat_def)
qed

lemma spec_chunks_Nil [simp]: "spec_chunks k [] = []"
  by (simp add: spec_chunks.simps)

lemma spec_chunks_step:
  "0 < k \<Longrightarrow> 0 < length xs \<Longrightarrow> spec_chunks k xs = take k xs # spec_chunks k (drop k xs)"
  by (subst spec_chunks.simps) auto

lemma length_slice [simp]: "hi \<le> length xs \<Longrightarrow> length (slice xs lo hi) = hi - lo"
  by (simp add: slice_def)

lemma NewChaCha20_key_words:
  assumes "length kb = 32"
  shows "map unat (key (NewChaCha20 kb nb cb)) = map spec_le_nat (spec_chunks 4 kb)"
  using assms
  by (simp add: NewChaCha20_def Let_def unat_Uint32 spec_chunks_step slice_def)

lemma NewChaCha20_nonce_words:
  assumes "length nb = 12"
  shows "map unat (nonce (NewChaCha20 kb nb cb)) = map spec_le_nat (spec_chunks 4 nb)"
  using assms
  by (simp add: NewChaCha20_def Let_def unat_Uint32 spec_chunks_step slice_def)

lemma NewChaCha20_counter:
  assumes "length cb = 4"
  shows "unat (counter (NewChaCha20 kb nb cb)) = spec_le_nat cb"
  using assms by (simp add: NewChaCha20_def Let_def unat_Uint32)

lemma NewChaCha20_lengths [simp]:
  "length (key (NewChaCha20 kb nb cb)) = 8" "length (nonce (NewChaCha20 kb nb cb)) = 3"
  "length (state (NewChaCha20 kb nb cb)) = 16"
  by (simp_all add: NewChaCha20_def Let_def)

lemma CreateBlock_pow_fields [simp]:
  "key (((\<lambda>c. snd (CreateBlock c)) ^^ n) c) = key c"
  "nonce (((\<lambda>c. snd (CreateBlock c)) ^^ n) c) = nonce c"
  "counter (((\<lambda>c. snd (CreateBlock c)) ^^ n) c) = counter c + of_nat n"
  by (induction n) simp_all

lemma length_CreateBlock [simp]: "length (fst (CreateBlock c)) = 16"
  by (simp add: CreateBlock_block)

text \<open>
  Claim C3. On an instance made by \<^verbatim>\<open>NewChaCha20\<close> from a 32-byte key, a 12-byte nonce and a
  4-byte counter, after any number \<open>n\<close> of calls, \<^verbatim>\<open>CreateBlock\<close> returns the 16 words that
  the specification describes: the state of the four constant words, the eight little-endian
  key words, the counter word (the initial counter plus \<open>n\<close>, modulo \<open>2 ^ 32\<close>) and the three
  little-endian nonce words, put through 10 double rounds and then added word by word,
  modulo \<open>2 ^ 32\<close>, to the state before the rounds; and it leaves the counter one higher.
\<close>

theorem CreateBlock_spec:
  assumes "length kb = 32" "length nb = 12" "length cb = 4"
  shows "let c = ((\<lambda>c. snd (CreateBlock c)) ^^ n) (NewChaCha20 kb nb cb) in
     map unat (fst (CreateBlock c)) =
        spec_block (map spec_le_nat (spec_chunks 4 kb)) ((spec_le_nat cb + n) mod 2 ^ 32)
                   (map spec_le_nat (spec_chunks 4 nb))
     \<and> length (fst (CreateBlock c)) = 16
     \<and> unat (counter (snd (CreateBlock c))) = (spec_le_nat cb + n + 1) mod 2 ^ 32"
proof -
  let ?c = "((\<lambda>c. snd (CreateBlock c)) ^^ n) (NewChaCha20 kb nb cb)"
  have c: "unat (counter ?c) = (spec_le_nat cb + n) mod 2 ^ 32"
    using assms(3) by (simp add: unat_word_ariths NewChaCha20_counter unat_of_nat mod_add_right_eq)
  have k: "map unat (key ?c) = map spec_le_nat (spec_chunks 4 kb)"
    using assms(1) by (simp add: NewChaCha20_key_words)
  have nn: "map unat (nonce ?c) = map spec_le_nat (spec_chunks 4 nb)"
    using assms(2) by (simp add: NewChaCha20_nonce_words)
  have a: "map unat (fst (CreateBlock ?c)) =
      spec_block (map unat (key ?c)) (unat (counter ?c)) (map unat (nonce ?c))"
    by (rule CreateBlock_unat) simp_all
  have b: "map unat (fst (CreateBlock ?c)) =
        spec_block (map spec_le_nat (spec_chunks 4 kb)) ((spec_le_nat cb + n) mod 2 ^ 32)
                   (map spec_le_nat (spec_chunks 4 nb))"
    by (simp only: a k nn c)
  have "unat (counter (snd (CreateBlock ?c))) = (unat (counter ?c) + 1) mod 2 ^ 32"
    by (simp add: unat_word_ariths)
  then have n: "unat (counter (snd (CreateBlock ?c))) = (spec_le_nat cb + n + 1) mod 2 ^ 32"
    by (simp only: c mod_add_left_eq)
  show ?thesis using b n by (simp add: Let_def)
qed

subsection \<open>A block depends on the key, the nonce and the counter only\<close>

lemma quarterRoundAt_state:
  "state (quarterRoundAt x y z w c) =
     (case quarterRound (state c ! x) (state c ! y) (state c ! z) (state c ! w) of
       (a, b, c', d) \<Rightarrow> (state c)[x := a, y := b, z := c', w := d])"
  by (simp add: quarterRoundAt_def split: prod.splits)

lemma quarterRoundAt_state_cong:
  "state c = state c' \<Longrightarrow> state (quarterRoundAt x y z w c) = state (quarterRoundAt x y z w c')"
  by (simp only: quarterRoundAt_state)

lemma doubleRound_state_cong:
  assumes "state c = state c'"
  shows "state (doubleRound c) = state (doubleRound c')"
  unfolding doubleRound_def columnRound_def diagonalRound_def
  apply (rule quarterRoundAt_state_cong)
  apply (rule quarterRoundAt_state_cong)
  apply (rule quarterRoundAt_state_cong)
  apply (rule quarterRoundAt_state_cong)
  apply (rule quarterRoundAt_state_cong)
  apply (rule quarterRoundAt_state_cong)
  apply (rule quarterRoundAt_state_cong)
  apply (rule quarterRoundAt_state_cong)
  apply (rule assms)
  done

lemma doubleRound_pow_state_cong:
  "state c = state c' \<Longrightarrow> state ((doubleRound ^^ n) c) = state ((doubleRound ^^ n) c')"
proof (induction n)
  case 0
  then show ?case by simp
next
  case (Suc n)
  then show ?case using doubleRound_state_cong[of "(doubleRound ^^ n) c" "(doubleRound ^^ n) c'"] by simp
qed

lemma CreateBlock_cong:
  assumes "key c = key c'" "nonce c = nonce c'" "counter c = counter c'"
  shows "fst (CreateBlock c) = fst (CreateBlock c')"
proof -
  let ?i = "initState (key c') (nonce c') (counter c')"
  have "state ((doubleRound ^^ 10) (c\<lparr>state := ?i\<rparr>)) = state ((doubleRound ^^ 10) (c'\<lparr>state := ?i\<rparr>))"
    by (rule doubleRound_pow_state_cong) simp
  then show ?thesis unfolding CreateBlock_block using assms by simp
qed

lemma blockAt_cong:
  assumes "key c = key c'" "nonce c = nonce c'" "counter c = counter c'"
  shows "blockAt c i = blockAt c' i"
  unfolding blockAt_def by (rule CreateBlock_cong) (simp_all add: assms)

subsection \<open>Evaluating the specification on numerals\<close>

lemma spec_add32_numeral:
  "spec_add32 (numeral a) (numeral b) = (numeral a + numeral b) mod 2 ^ 32"
  by (simp add: spec_add32_def)

lemma spec_rotl32_numeral:
  "spec_rotl32 (numeral a) (numeral k) =
     (numeral a * 2 ^ numeral k) mod 2 ^ 32 + numeral a div 2 ^ (32 - numeral k)"
  by (simp add: spec_rotl32_def)

lemmas spec_eval = spec_double_round_def spec_column_round_def spec_diagonal_round_def
  spec_quarter_on_def spec_quarter_round_def spec_add32_numeral spec_rotl32_numeral Let_def

lemma funpow_10: "(f ^^ 10) x = f (f (f (f (f (f (f (f (f (f x)))))))))"
  by (simp add: eval_nat_numeral)

lemma rfc8439_key_words:
  "map spec_le_nat (spec_chunks 4 rfc8439_key) =
     [0x03020100, 0x07060504, 0x0b0a0908, 0x0f0e0d0c, 0x13121110, 0x17161514, 0x1b1a1918, 0x1f1e1d1c]"
  by (simp add: rfc8439_key_def spec_chunks_step spec_le_nat_def)

lemma rfc8439_nonce_words:
  "map spec_le_nat (spec_chunks 4 rfc8439_nonce) = [0x09000000, 0x4a000000, 0]"
  by (simp add: rfc8439_nonce_def spec_chunks_step spec_le_nat_def)

text \<open>The block of RFC 8439, section 2.3.2, one double round at a time.\<close>

lemma rfc8439_block_round_1:
  "spec_double_round
     [0x61707865, 0x3320646e, 0x79622d32, 0x6b206574,
     0x03020100, 0x07060504, 0x0b0a0908, 0x0f0e0d0c,
     0x13121110, 0x17161514, 0x1b1a1918, 0x1f1e1d1c,
     0x00000001, 0x09000000, 0x4a000000, 0x00000000] =
     [0xcd52e917, 0x85ab03b4, 0xb3457395, 0xf96de7dd,
     0xc4b7cd22, 0x5c2e187a, 0xc95eb461, 0x316c801a,
     0x7bf7d740, 0x7eddd644, 0xf1a1bdf5, 0x761246ca,
     0x6b0d58a3, 0x6798471a, 0xd737f167, 0xf173888d]"
  by (simp add: spec_eval)

lemma rfc8439_block_round_2:
  "spec_double_round
     [0xcd52e917, 0x85ab03b4, 0xb3457395, 0xf96de7dd,
     0xc4b7cd22, 0x5c2e187a, 0xc95eb461, 0x316c801a,
     0x7bf7d740, 0x7eddd644, 0xf1a1bdf5, 0x761246ca,
     0x6b0d58a3, 0x6798471a, 0xd737f167, 0xf173888d] =
     [0xcf1a7584, 0x048927ec, 0x54051fda, 0xc244ff28,
     0x901d2f40, 0x7974b81c, 0x378dcfb4, 0xcd47fd0e,
     0x2dafb216, 0x27c89cd6, 0xcd3c9aa0, 0x79fc89c7,
     0x10aef18d, 0x16218765, 0x68f76705, 0x04d6ee22]"
  by (simp add: spec_eval)

lemma rfc8439_block_round_3:
  "spec_double_round
     [0xcf1a7584, 0x048927ec, 0x54051fda, 0xc244ff28,
     0x901d2f40, 0x7974b81c, 0x378dcfb4, 0xcd47fd0e,
     0x2dafb216, 0x27c89cd6, 0xcd3c9aa0, 0x79fc89c7,
     0x10aef18d, 0x16218765, 0x68f76705, 0x04d6ee22] =
     [0x03a14032, 0x66b15927, 0x9d6b6b42, 0xb84c4109,
     0xa7143ae0, 0xa09b33dd, 0xa5daaf88, 0x2fd91a73,
     0xc90c6b18, 0x5a202413, 0xc20e01b6, 0x72cd6b74,
     0xba35d777, 0xb360f1bf, 0x8178315b, 0x2cd11b1a]"
  by (simp add: spec_eval)

lemma rfc8439_block_round_4:
  "spec_double_round
     [0x03a14032, 0x66b15927, 0x9d6b6b42, 0xb84c4109,
     0xa7143ae0, 0xa09b33dd, 0xa5daaf88, 0x2fd91a73,
     0xc90c6b18, 0x5a202413, 0xc20e01b6, 0x72cd6b74,
     0xba35d777, 0xb360f1bf, 0x8178315b, 0x2cd11b1a] =
     [0x9a2d3589, 0x0b23fc4e, 0x40af3b6b, 0xceea8144,
     0x0a1bffc6, 0x5e5993f7, 0x9904c2e7, 0x0d334718,
     0xe46c6354, 0xc9503229, 0x04fef5aa, 0xf8933f72,
     0x2687d476, 0x54e65231, 0x3594ffc5, 0x2b3bb2ca]"
  by (simp add: spec_eval)

lemma rfc8439_block_round_5:
  "spec_double_round
     [0x9a2d3589, 0x0b23fc4e, 0x40af3b6b, 0xceea8144,
     0x0a1bffc6, 0x5e5993f7, 0x9904c2e7, 0x0d334718,
     0xe46c6354, 0xc9503229, 0x04fef5aa, 0xf8933f72,
     0x2687d476, 0x54e65231, 0x3594ffc5, 0x2b3bb2ca] =
     [0xc53318c5, 0xca325d96, 0x7e7d11cb, 0x3404e2ca,
     0x26d7cf73, 0x6088d379, 0xc0f0e9bd, 0xe310cdb9,
     0xae2ca8db, 0x42f67c72, 0x71669aca, 0x975c171d,
     0x9e5ec228, 0x7d85a9f3, 0x201d0756, 0x63fa6953]"
  by (simp add: spec_eval)

lemma rfc8439_block_round_6:
  "spec_double_round
     [0xc53318c5, 0xca325d96, 0x7e7d11cb, 0x3404e2ca,
     0x26d7cf73, 0x6088d379, 0xc0f0e9bd, 0xe310cdb9,
     0xae2ca8db, 0x42f67c72, 0x71669aca, 0x975c171d,
     0x9e5ec228, 0x7d85a9f3, 0x201d0756, 0x63fa6953] =
     [0x04a3131a, 0x66176309, 0x0415bab1, 0x61b880a2,
     0x36cc86c7, 0xbf8a4465, 0xf77dd720, 0xfc0bdc90,
     0x07d13aca, 0xeb0be9af, 0x61599491, 0x918512dc,
     0x33b6686d, 0x795cc671, 0xc0049972, 0xa0a81bde]"
  by (simp add: spec_eval)

lemma rfc8439_block_round_7:
  "spec_double_round
     [0x04a3131a, 0x66176309, 0x0415bab1, 0x61b880a2,
     0x36cc86c7, 0xbf8a4465, 0xf77dd720, 0xfc0bdc90,
     0x07d13aca, 0xeb0be9af, 0x61599491, 0x918512dc,
     0x33b6686d, 0x795cc671, 0xc0049972, 0xa0a81bde] =
     [0x9b70f51f, 0x7ea8ac11, 0x21e54da9, 0xca393b2f,
     0x93b08686, 0x6a4c50ae, 0x19212a5a, 0x9b032958,
     0xd839165e, 0x4c06e28a, 0xd3fde99e, 0x26acc13d,
     0xa609f555, 0x2c246549, 0x95151853, 0x2c847a0d]"
  by (simp add: spec_eval)

lemma rfc8439_block_round_8:
  "spec_double_round
     [0x9b70f51f, 0x7ea8ac11, 0x21e54da9, 0xca393b2f,
     0x93b08686, 0x6a4c50ae, 0x19212a5a, 0x9b032958,
     0xd839165e, 0x4c06e28a, 0xd3fde99e, 0x26acc13d,
     0xa609f555, 0x2c246549, 0x95151853, 0x2c847a0d] =
     [0xca5c85dd, 0x93a4f90e, 0xd9f0df58, 0x26dd82dd,
     0x982563f8, 0x712aa9ff, 0x279a61e8, 0x970f72bd,
     0x1c25931a, 0x5180bb10, 0x779c27e7, 0x54077e08,
     0xa9b751fb, 0x382f3ce2, 0x8db1757d, 0xcc38080b]"
  by (simp add: spec_eval)

lemma rfc8439_block_round_9:
  "spec_double_round
     [0xca5c85dd, 0x93a4f90e, 0xd9f0df58, 0x26dd82dd,
     0x982563f8, 0x712aa9ff, 0x279a61e8, 0x970f72bd,
     0x1c25931a, 0x5180bb10, 0x779c27e7, 0x54077e08,
     0xa9b751fb, 0x382f3ce2, 0x8db1757d, 0xcc38080b] =
     [0xb6b87de6, 0x9a016148, 0x93859815, 0x4915e6cc,
     0xdc33c122, 0x98e18fa3, 0x5ffbe8fc, 0xf7154b8b,
     0x28c1fcb3, 0xc4b38f9d, 0x83e2f5d7, 0x7d24b98b,
     0x21078b22, 0xb193e7a3, 0xb2f49389, 0x6cde6026]"
  by (simp add: spec_eval)

lemma rfc8439_block_round_10:
  "spec_double_round
     [0xb6b87de6, 0x9a016148, 0x93859815, 0x4915e6cc,
     0xdc33c122, 0x98e18fa3, 0x5ffbe8fc, 0xf7154b8b,
     0x28c1fcb3, 0xc4b38f9d, 0x83e2f5d7, 0x7d24b98b,
     0x21078b22, 0xb193e7a3, 0xb2f49389, 0x6cde6026] =
     [0x837778ab, 0xe238d763, 0xa67ae21e, 0x5950bb2f,
     0xc4f2d0c7, 0xfc62bb2f, 0x8fa018fc, 0x3f5ec7b7,
     0x335271c2, 0xf29489f3, 0xeabda8fc, 0x82e46ebd,
     0xd19c12b4, 0xb04e16de, 0x9e83d0cb, 0x4e3c50a2]"
  by (simp add: spec_eval)

lemma rfc8439_block_rounds:
  "(spec_double_round ^^ 10)
     [0x61707865, 0x3320646e, 0x79622d32, 0x6b206574,
     0x03020100, 0x07060504, 0x0b0a0908, 0x0f0e0d0c,
     0x13121110, 0x17161514, 0x1b1a1918, 0x1f1e1d1c,
     0x00000001, 0x09000000, 0x4a000000, 0x00000000] =
     [0x837778ab, 0xe238d763, 0xa67ae21e, 0x5950bb2f,
     0xc4f2d0c7, 0xfc62bb2f, 0x8fa018fc, 0x3f5ec7b7,
     0x335271c2, 0xf29489f3, 0xeabda8fc, 0x82e46ebd,
     0xd19c12b4, 0xb04e16de, 0x9e83d0cb, 0x4e3c50a2]"
  by (simp only: funpow_10 rfc8439_block_round_1 rfc8439_block_round_2 rfc8439_block_round_3 rfc8439_block_round_4 rfc8439_block_round_5 rfc8439_block_round_6 rfc8439_block_round_7 rfc8439_block_round_8 rfc8439_block_round_9 rfc8439_block_round_10)

lemma rfc8439_spec_block:
  "spec_block [0x03020100, 0x07060504, 0x0b0a0908, 0x0f0e0d0c,
               0x13121110, 0x17161514, 0x1b1a1918, 0x1f1e1d1c] 1 [0x09000000, 0x4a000000, 0] =
     [0xe4e7f110, 0x15593bd1, 0x1fdd0f50, 0xc47120a3,
     0xc7f4d1c7, 0x0368c033, 0x9aaa2204, 0x4e6cd4c3,
     0x466482d2, 0x09aa9f07, 0x05d7c214, 0xa2028bd9,
     0xd19c12b5, 0xb94e16de, 0xe883d0cb, 0x4e3c50a2]"
  by (simp add: spec_block_def spec_initial_state_def spec_constants_eval rfc8439_block_rounds
        spec_add32_def del: One_nat_def)

theorem CreateBlock_spec_witness:
  "length rfc8439_key = 32 \<and> length rfc8439_nonce = 12 \<and> length [0x01, 0x00, 0x00, 0x00 :: byte] = 4 \<and>
   map unat (fst (CreateBlock (NewChaCha20 rfc8439_key rfc8439_nonce [0x01, 0x00, 0x00, 0x00]))) =
     [0xe4e7f110, 0x15593bd1, 0x1fdd0f50, 0xc47120a3,
      0xc7f4d1c7, 0x0368c033, 0x9aaa2204, 0x4e6cd4c3,
      0x466482d2, 0x09aa9f07, 0x05d7c214, 0xa2028bd9,
      0xd19c12b5, 0xb94e16de, 0xe883d0cb, 0x4e3c50a2] \<and>
   unat (counter (snd (CreateBlock (NewChaCha20 rfc8439_key rfc8439_nonce [0x01, 0x00, 0x00, 0x00])))) = 2"
proof -
  have k: "length rfc8439_key = 32" by (simp add: rfc8439_key_def)
  have n: "length rfc8439_nonce = 12" by (simp add: rfc8439_nonce_def)
  have c: "length [0x01, 0x00, 0x00, 0x00 :: byte] = 4" by simp
  have cv: "spec_le_nat [0x01, 0x00, 0x00, 0x00] = 1" by (simp add: spec_le_nat_def)
  from CreateBlock_spec[OF k n c, of 0]
  show ?thesis
    by (simp add: k n Let_def rfc8439_key_words rfc8439_nonce_words cv rfc8439_spec_block
          del: One_nat_def)
qed

subsection \<open>The keystream loops\<close>

lemma length_xorWord [simp]: "length (xorWord w block i) = length block"
  by (simp add: xorWord_def Let_def)

lemma xorWord_nth:
  assumes "i + 4 \<le> length block" "j < length block"
  shows "xorWord w block i ! j =
     (if i \<le> j \<and> j < i + 4 then block ! j XOR ucast (drop_bit (8 * (j - i)) w) else block ! j)"
proof -
  consider "j < i" | "j = i" | "j = i + 1" | "j = i + 2" | "j = i + 3" | "i + 4 \<le> j"
    by linarith
  then show ?thesis
    using assms by cases (simp_all add: xorWord_def Let_def nth_list_update)
qed

lemma in_word:
  assumes "i mod 4 = 0" "i \<le> j" "j < i + 4"
  shows "j div 4 = i div 4 \<and> j mod 4 = j - (i::nat)"
proof -
  obtain q where q: "i = 4 * q" using assms(1) by (auto simp add: mod_eq_0_iff_dvd)
  define r where "r = j - i"
  have j: "j = 4 * q + r" and r: "r < 4" using assms q by (simp_all add: r_def)
  show ?thesis unfolding j q using r by simp
qed

lemma word_limit:
  "i mod 4 = 0 \<Longrightarrow> i + 4 \<le> L \<Longrightarrow> j < i + 4 \<Longrightarrow> j < L - L mod (4::nat)"
  by presburger

lemma word_limit_done:
  "i mod 4 = 0 \<Longrightarrow> \<not> i + 4 \<le> L \<Longrightarrow> \<not> (i \<le> j \<and> j < L - L mod (4::nat))"
  by presburger

lemma length_xorWords [simp]: "length (xorWords ks block i) = length block"
proof (induction ks block i rule: xorWords.induct)
  case (1 ks block i)
  then show ?case by (subst xorWords.simps) simp
qed

lemma xorWords_nth:
  assumes "i mod 4 = 0" "j < length block"
  shows "xorWords ks block i ! j =
     (if i \<le> j \<and> j < length block - length block mod 4 then block ! j XOR spec_block_byte ks j
      else block ! j)"
  using assms
proof (induction ks block i rule: xorWords.induct)
  case (1 ks block i)
  show ?case
  proof (cases "i + 4 \<le> length block")
    case True
    let ?b = "xorWord (ks ! (drop_bit 2 i)) block i"
    have step: "xorWords ks block i = xorWords ks ?b (i + 4)"
      using True by (subst xorWords.simps) simp
    have ih: "xorWords ks ?b (i + 4) ! j =
       (if i + 4 \<le> j \<and> j < length ?b - length ?b mod 4 then ?b ! j XOR spec_block_byte ks j else ?b ! j)"
      using "1.IH"[OF True] "1.prems" by simp
    have d: "drop_bit 2 i = i div 4" by (simp add: drop_bit_nat_def)
    have bj: "?b ! j = (if i \<le> j \<and> j < i + 4 then block ! j XOR ucast (drop_bit (8 * (j - i)) (ks ! (i div 4))) else block ! j)"
      using xorWord_nth[OF True "1.prems"(2)] d by simp
    have lim: "i \<le> j \<Longrightarrow> j < i + 4 \<Longrightarrow> j < length block - length block mod 4"
      using word_limit[OF "1.prems"(1) True] by simp
    consider (lo) "j < i" | (mid) "i \<le> j" "j < i + 4" | (hi) "i + 4 \<le> j" by linarith
    then show ?thesis
    proof cases
      case lo
      then show ?thesis unfolding step ih bj by simp
    next
      case mid
      have "ucast (drop_bit (8 * (j - i)) (ks ! (i div 4))) = spec_block_byte ks j"
        using in_word[OF "1.prems"(1) mid] by (simp add: spec_block_byte_def)
      then show ?thesis unfolding step ih bj using mid lim[OF mid] by simp
    next
      case hi
      then show ?thesis unfolding step ih bj by simp
    qed
  next
    case False
    then have e: "xorWords ks block i = block" by (subst xorWords.simps) simp
    have neg: "\<not> (i \<le> j \<and> j < length block - length block mod 4)"
      using word_limit_done[OF "1.prems"(1) False] by simp
    show ?thesis by (simp only: e neg if_False)
  qed
qed

lemma length_xorRest [simp]: "length (xorRest w rest) = length rest"
  by (induction rest arbitrary: w) simp_all

lemma xorRest_nth:
  "j < length rest \<Longrightarrow> xorRest w rest ! j = rest ! j XOR ucast (drop_bit (8 * j) w)"
proof (induction rest arbitrary: w j)
  case Nil
  then show ?case by simp
next
  case (Cons b rest)
  show ?case
  proof (cases j)
    case 0
    then show ?thesis by simp
  next
    case (Suc j')
    with Cons show ?thesis by (simp add: drop_bit_drop_bit add.commute)
  qed
qed

lemma and_124:
  assumes "n < 128"
  shows "(n::nat) AND 124 = n - n mod 4"
proof -
  have b: "bit (124::nat) k \<longleftrightarrow> 2 \<le> k \<and> k < 7" for k
  proof -
    have e: "(124::nat) = push_bit 2 (mask 5)" by (simp add: mask_eq_exp_minus_1 push_bit_nat_def)
    show ?thesis by (subst e) (simp only: bit_push_bit_iff bit_mask_iff, auto simp add: possible_bit_def)
  qed
  have n: "bit n k \<Longrightarrow> k < 7" for k
  proof -
    have "take_bit 7 n = n" using assms by (simp add: take_bit_nat_eq_self)
    then show "bit n k \<Longrightarrow> k < 7" by (metis bit_take_bit_iff)
  qed
  have "n - n mod 4 = push_bit 2 (drop_bit 2 n)"
    by (simp add: push_bit_nat_def drop_bit_nat_def minus_mod_eq_div_mult)
  moreover have "n AND 124 = push_bit 2 (drop_bit 2 n)"
  proof (rule bit_eqI)
    fix k
    show "bit (n AND 124) k = bit (push_bit 2 (drop_bit 2 n)) k"
    proof (cases "2 \<le> k")
      case True
      then have "2 + (k - 2) = k" by simp
      then show ?thesis using True n[of k]
        by (auto simp add: bit_and_iff b bit_push_bit_iff bit_drop_bit_eq)
    next
      case False
      then show ?thesis by (simp add: bit_and_iff b bit_push_bit_iff)
    qed
  qed
  ultimately show ?thesis by simp
qed

lemma word_rest_bound: "j < n \<Longrightarrow> j < n - n mod 4 + (4::nat)"
  by presburger

lemma word_floor_mod: "((n::nat) - n mod 4) mod 4 = 0"
  by presburger

lemma rest_index:
  assumes "m = n - n mod 4" "m \<le> j" "j < (n::nat)"
  shows "j div 4 = m div 4 \<and> j mod 4 = j - m"
proof -
  have a: "m mod 4 = 0" using assms(1) word_floor_mod by simp
  have b: "j < m + 4" using assms word_rest_bound by simp
  show ?thesis by (rule in_word[OF a assms(2) b])
qed

lemma xorBlock_length_nth:
  assumes "length block < 128"
  shows "length (xorBlock ks block) = length block"
    and "j < length block \<Longrightarrow> xorBlock ks block ! j = block ! j XOR spec_block_byte ks j"
proof -
  let ?n = "length block"
  let ?m = "?n - ?n mod 4"
  let ?b = "xorWords ks block 0"
  have m: "length ?b AND 124 = ?m" using assms by (simp add: and_124)
  have d: "drop_bit 2 ?m = ?m div 4" by (simp add: drop_bit_nat_def)
  have mle: "?m \<le> ?n" by simp
  have b_nth: "i < ?n \<Longrightarrow> ?b ! i = (if i < ?m then block ! i XOR spec_block_byte ks i else block ! i)" for i
    using xorWords_nth[of 0 i block ks] by simp
  have eq: "xorBlock ks block =
      (if ?m < ?n then take ?m ?b @ xorRest (ks ! (?m div 4)) (drop ?m ?b) else ?b)"
    unfolding xorBlock_def Let_def m d by simp
  show "length (xorBlock ks block) = length block"
    unfolding eq by simp
  show "xorBlock ks block ! j = block ! j XOR spec_block_byte ks j" if j: "j < ?n"
  proof (cases "j < ?m")
    case True
    then have "xorBlock ks block ! j = ?b ! j"
      unfolding eq using j by (simp add: nth_append)
    then show ?thesis using b_nth[OF j] True by simp
  next
    case False
    then have lt: "?m < ?n" and ge: "?m \<le> j" using j by simp_all
    have "xorBlock ks block ! j = xorRest (ks ! (?m div 4)) (drop ?m ?b) ! (j - ?m)"
      unfolding eq using lt False j by (simp add: nth_append)
    also have "\<dots> = drop ?m ?b ! (j - ?m) XOR ucast (drop_bit (8 * (j - ?m)) (ks ! (?m div 4)))"
      using j ge by (intro xorRest_nth) simp
    also have "drop ?m ?b ! (j - ?m) = ?b ! j" using ge j by simp
    also have "?b ! j = block ! j" using b_nth[OF j] False by simp
    also have "ucast (drop_bit (8 * (j - ?m)) (ks ! (?m div 4))) = spec_block_byte ks j"
      using rest_index[OF refl ge j] by (simp add: spec_block_byte_def)
    finally show ?thesis .
  qed
qed

lemma ceilDiv_64_less: "n < ceilDiv N 64 \<longleftrightarrow> 64 * n < N"
  unfolding ceilDiv_def by linarith

lemma ceilDiv_64_done: "j < N \<Longrightarrow> j < 64 * ceilDiv N 64"
  unfolding ceilDiv_def by linarith

lemma block_index: "64 * n \<le> j \<Longrightarrow> j < 64 * n + 64 \<Longrightarrow> j div 64 = n \<and> j mod 64 = j - 64 * (n::nat)"
proof -
  assume a: "64 * n \<le> j" "j < 64 * n + 64"
  define r where "r = j - 64 * n"
  have j: "j = 64 * n + r" and r: "r < 64" using a by (simp_all add: r_def)
  show ?thesis unfolding j using r by simp
qed

lemma xorStep_inv:
  assumes inv: "xor_inv c0 data n rc" and n: "64 * n < length data"
  shows "xor_inv c0 data (Suc n) (xorStep (length data) n rc)"
proof -
  obtain R C where rc: "rc = (R, C)" by (cases rc)
  let ?N = "length data"
  define lo where "lo = 64 * n"
  define hi where "hi = (if 64 * n + 64 < ?N then 64 * n + 64 else ?N)"
  define ks where "ks = fst (CreateBlock C)"
  define blk where "blk = slice R lo hi"
  define R' where "R' = take lo R @ xorBlock ks blk @ drop hi R"
  from inv rc have len: "length R = ?N" and k: "key C = key c0" and nn: "nonce C = nonce c0"
    and ctr: "counter C = counter c0 + of_nat n"
    and old: "\<And>j. j < ?N \<Longrightarrow> R ! j = (if j < 64 * n then data ! j XOR spec_keystream_byte c0 j else data ! j)"
    by (simp_all add: xor_inv_def)
  have step: "xorStep ?N n rc = (R', snd (CreateBlock C))"
    using len
    by (simp add: rc xorStep_def chacha20_BlockSize_def Let_def add.commute mult.commute
          R'_def blk_def ks_def hi_def lo_def split: prod.splits)
  have ks: "ks = blockAt c0 n"
    unfolding blockAt_def ks_def by (rule CreateBlock_cong) (simp_all add: k nn ctr)
  have lohi: "lo < hi" "hi \<le> ?N" "hi - lo \<le> 64" "hi \<le> 64 * n + 64"
    using n by (auto simp add: lo_def hi_def)
  have hi_done: "hi \<le> j \<Longrightarrow> j < ?N \<Longrightarrow> hi = 64 * n + 64" for j
    by (auto simp add: hi_def split: if_splits)
  have blen: "length blk = hi - lo" using lohi len by (simp add: slice_def blk_def)
  then have b128: "length blk < 128" using lohi by linarith
  have xlen: "length (xorBlock ks blk) = hi - lo"
    using xorBlock_length_nth(1)[OF b128] blen by simp
  have lenR': "length R' = ?N" using xlen lohi len by (simp add: R'_def)
  have nth: "R' ! j = (if j < 64 * Suc n then data ! j XOR spec_keystream_byte c0 j else data ! j)"
    if j: "j < ?N" for j
  proof -
    consider (a) "j < lo" | (b) "lo \<le> j" "j < hi" | (c) "hi \<le> j" by linarith
    then show ?thesis
    proof cases
      case a
      then have "R' ! j = R ! j" using len j by (simp add: nth_append R'_def)
      then show ?thesis using old[OF j] a by (simp add: lo_def)
    next
      case b
      have jb: "j - lo < length blk" using b blen by simp
      have "j - lo < hi - lo" using b by linarith
      then have "R' ! j = xorBlock ks blk ! (j - lo)"
        using b len lohi xlen by (simp add: nth_append R'_def)
      also have "\<dots> = blk ! (j - lo) XOR spec_block_byte ks (j - lo)"
        by (rule xorBlock_length_nth(2)[OF b128 jb])
      also have "blk ! (j - lo) = R ! j" using b len lohi by (simp add: slice_def blk_def)
      also have "R ! j = data ! j" using old[OF j] b by (simp add: lo_def)
      also have "spec_block_byte ks (j - lo) = spec_keystream_byte c0 j"
      proof -
        have "64 * n \<le> j" "j < 64 * n + 64" using b lohi by (simp_all add: lo_def)
        from block_index[OF this] show ?thesis by (simp add: spec_keystream_byte_def ks lo_def)
      qed
      finally show ?thesis using b lohi by simp
    next
      case c
      have "\<not> j - lo < hi - lo" "\<not> j < lo" "hi + (j - lo - (hi - lo)) = j"
        using c lohi by linarith+
      then have "R' ! j = R ! j" using c len lohi xlen j by (simp add: nth_append R'_def)
      then show ?thesis using old[OF j] c hi_done[OF c j] by simp
    qed
  qed
  show ?thesis
    unfolding step xor_inv_def using lenR' nth k nn ctr by simp
qed


lemma xor_loop_inv:
  "64 * n < length data + 64 \<Longrightarrow> xor_inv c0 data n (fold (xorStep (length data)) [0..<n] (data, c0))"
proof (induction n)
  case 0
  then show ?case by (simp add: xor_inv_def)
next
  case (Suc n)
  then have "xor_inv c0 data n (fold (xorStep (length data)) [0..<n] (data, c0))" by simp
  moreover have "64 * n < length data" using Suc.prems by simp
  ultimately show ?case using xorStep_inv by simp
qed

lemma ceilDiv_64_bound: "64 * ceilDiv N 64 < N + 64"
  unfolding ceilDiv_def by linarith

lemma XORWithKeyStream_inv:
  "xor_inv c data (ceilDiv (length data) 64) (XORWithKeyStream c data)"
  unfolding XORWithKeyStream_def Let_def chacha20_BlockSize_def
  by (rule xor_loop_inv) (rule ceilDiv_64_bound)

lemma length_XORWithKeyStream [simp]: "length (fst (XORWithKeyStream c data)) = length data"
  using XORWithKeyStream_inv[of c data] by (simp add: xor_inv_def)

lemma XORWithKeyStream_fields [simp]:
  "key (snd (XORWithKeyStream c data)) = key c"
  "nonce (snd (XORWithKeyStream c data)) = nonce c"
  "counter (snd (XORWithKeyStream c data)) = counter c + of_nat (ceilDiv (length data) 64)"
  using XORWithKeyStream_inv[of c data] by (simp_all add: xor_inv_def)

lemma XORWithKeyStream_stream: "fst (XORWithKeyStream c data) = spec_xor_stream c data"
proof (rule nth_equalityI)
  show "length (fst (XORWithKeyStream c data)) = length (spec_xor_stream c data)"
    by (simp add: spec_xor_stream_def)
next
  fix j assume "j < length (fst (XORWithKeyStream c data))"
  then have j: "j < length data" by simp
  then have "fst (XORWithKeyStream c data) ! j = data ! j XOR spec_keystream_byte c j"
    using XORWithKeyStream_inv[of c data] ceilDiv_64_done[OF j] by (simp add: xor_inv_def)
  then show "fst (XORWithKeyStream c data) ! j = spec_xor_stream c data ! j"
    using j by (simp add: spec_xor_stream_def)
qed

lemma spec_keystream_byte_cong:
  assumes "key c = key c'" "nonce c = nonce c'" "counter c = counter c'"
  shows "spec_keystream_byte c j = spec_keystream_byte c' j"
  unfolding spec_keystream_byte_def using blockAt_cong[OF assms] by simp

lemma spec_xor_stream_involution:
  assumes "key c = key c'" "nonce c = nonce c'" "counter c = counter c'"
  shows "spec_xor_stream c' (spec_xor_stream c data) = data"
proof (rule nth_equalityI)
  show "length (spec_xor_stream c' (spec_xor_stream c data)) = length data"
    by (simp add: spec_xor_stream_def)
next
  fix j assume "j < length (spec_xor_stream c' (spec_xor_stream c data))"
  then have j: "j < length data" by (simp add: spec_xor_stream_def)
  then show "spec_xor_stream c' (spec_xor_stream c data) ! j = data ! j"
    using spec_keystream_byte_cong[OF assms, of j]
    by (simp add: spec_xor_stream_def xor.assoc)
qed

lemma XORWithKeyStream_involution:
  assumes "key c = key c'" "nonce c = nonce c'" "counter c = counter c'"
  shows "fst (XORWithKeyStream c' (fst (XORWithKeyStream c data))) = data"
  unfolding XORWithKeyStream_stream by (rule spec_xor_stream_involution[OF assms])

lemma ceilDiv_64: "ceilDiv n 64 = (n + 63) div 64"
  by (simp add: ceilDiv_def)

lemma CreateBlock_counter_unat:
  "unat (counter (snd (CreateBlock c))) = (unat (counter c) + 1) mod 2 ^ 32"
  by (simp add: unat_word_ariths)

lemma XORWithKeyStream_counter_unat:
  "unat (counter (snd (XORWithKeyStream c data))) =
     (unat (counter c) + (length data + 63) div 64) mod 2 ^ 32"
proof -
  have "unat (counter c + of_nat (ceilDiv (length data) 64)) =
      (unat (counter c) + ceilDiv (length data) 64 mod 2 ^ 32) mod 2 ^ 32"
    by (simp add: unat_word_ariths unat_of_nat)
  also have "\<dots> = (unat (counter c) + ceilDiv (length data) 64) mod 2 ^ 32"
    by (rule mod_add_right_eq)
  finally show ?thesis by (simp only: XORWithKeyStream_fields ceilDiv_64)
qed

lemma Uint32_ff: "Uint32 [0xff, 0xff, 0xff, 0xff] = 0xffffffff"
  by (simp add: Uint32_def)

lemma Uint32_00: "Uint32 [0x00, 0x00, 0x00, 0x00] = 0"
  by (simp add: Uint32_def)

lemma NewChaCha20_counter_field: "counter (NewChaCha20 kb nb cb) = Uint32 cb"
  by (simp add: NewChaCha20_def Let_def)

lemma NewChaCha20_key_nonce_cong:
  "key (NewChaCha20 kb nb cb) = key (NewChaCha20 kb nb cb')"
  "nonce (NewChaCha20 kb nb cb) = nonce (NewChaCha20 kb nb cb')"
  by (simp_all add: NewChaCha20_def Let_def)

text \<open>
  Claim C7. \<^verbatim>\<open>XORWithKeyStream\<close> returns as many bytes as it is given; it advances the
  counter, in \<^verbatim>\<open>uint32\<close> arithmetic, by the number of 64-byte blocks of the input, the last
  one possibly partial; byte \<open>j\<close> of the result is byte \<open>j\<close> of the input xor byte \<open>j\<close> of the
  keystream, so a partial last block takes only the keystream bytes it needs; and applying it
  on a fresh instance to the result of a fresh instance with the same key, nonce and initial
  counter gives the input back.
\<close>

theorem XORWithKeyStream_involution_spec:
  "length (fst (XORWithKeyStream c data)) = length data \<and>
   counter (snd (XORWithKeyStream c data)) = counter c + of_nat ((length data + 63) div 64) \<and>
   fst (XORWithKeyStream c data) = spec_xor_stream c data \<and>
   fst (XORWithKeyStream (NewChaCha20 keyb nonceb counterb)
         (fst (XORWithKeyStream (NewChaCha20 keyb nonceb counterb) data))) = data"
proof -
  have "counter (snd (XORWithKeyStream c data)) = counter c + of_nat ((length data + 63) div 64)"
    by (simp only: XORWithKeyStream_fields ceilDiv_64)
  moreover have "fst (XORWithKeyStream (NewChaCha20 keyb nonceb counterb)
         (fst (XORWithKeyStream (NewChaCha20 keyb nonceb counterb) data))) = data"
    by (rule XORWithKeyStream_involution) (rule refl)+
  ultimately show ?thesis
    using length_XORWithKeyStream[of c data] XORWithKeyStream_stream[of c data] by blast
qed

text \<open>
  Claim C6 says that a message that takes the block counter beyond 32 bits gets a
  CounterOverflow error and that the counter never wraps around. The code has no such error:
  \<^verbatim>\<open>CreateBlock\<close> returns a block and \<^verbatim>\<open>XORWithKeyStream\<close> returns bytes, and the counter is
  a \<^verbatim>\<open>uint32\<close> incremented with \<^verbatim>\<open>+= 1\<close>. From counter \<open>0xffffffff\<close> one call of
  \<^verbatim>\<open>CreateBlock\<close> leaves the counter at 0, and a 65-byte message is encrypted in full, its
  last byte with the first keystream byte of the block of counter 0.
\<close>

theorem counter_overflow_counterexample:
  "counter wrap_instance = 0xffffffff \<and>
   counter (snd (CreateBlock wrap_instance)) = 0 \<and>
   length (fst (XORWithKeyStream wrap_instance wrap_data)) = 65 \<and>
   counter (snd (XORWithKeyStream wrap_instance wrap_data)) = 1 \<and>
   fst (XORWithKeyStream wrap_instance wrap_data) ! 64 =
     spec_block_byte (fst (CreateBlock
        (NewChaCha20 (replicate 32 0) (replicate 12 0) [0x00, 0x00, 0x00, 0x00]))) 0"
proof -
  have c: "counter wrap_instance = 0xffffffff"
    by (simp add: wrap_instance_def NewChaCha20_counter_field Uint32_ff)
  have n: "ceilDiv (length wrap_data) 64 = 2" by (simp add: wrap_data_def ceilDiv_def)
  have b: "blockAt wrap_instance 1 = fst (CreateBlock
        (NewChaCha20 (replicate 32 0) (replicate 12 0) [0x00, 0x00, 0x00, 0x00]))"
    unfolding blockAt_def
  proof (rule CreateBlock_cong)
    show "counter (wrap_instance\<lparr>counter := counter wrap_instance + of_nat 1\<rparr>) =
        counter (NewChaCha20 (replicate 32 0) (replicate 12 0) [0x00, 0x00, 0x00, 0x00])"
      by (simp add: c NewChaCha20_counter_field Uint32_00)
  qed (simp_all add: wrap_instance_def
         NewChaCha20_key_nonce_cong[of _ _ "[0xff, 0xff, 0xff, 0xff]" "[0x00, 0x00, 0x00, 0x00]"])
  have "fst (XORWithKeyStream wrap_instance wrap_data) ! 64 =
      wrap_data ! 64 XOR spec_keystream_byte wrap_instance 64"
    by (simp add: XORWithKeyStream_stream spec_xor_stream_def wrap_data_def)
  also have "\<dots> = spec_block_byte (blockAt wrap_instance 1) 0"
    by (simp add: wrap_data_def spec_keystream_byte_def)
  finally have k: "fst (XORWithKeyStream wrap_instance wrap_data) ! 64 =
      spec_block_byte (blockAt wrap_instance 1) 0" .
  have l: "length (fst (XORWithKeyStream wrap_instance wrap_data)) = 65"
    by (simp add: wrap_data_def)
  have w: "counter (snd (CreateBlock wrap_instance)) = 0" by (simp add: c)
  have x: "counter (snd (XORWithKeyStream wrap_instance wrap_data)) = 1"
    by (simp add: c n)
  show ?thesis
    using c w l x k[unfolded b] by blast
qed


text \<open>
  Claim C6 as amended: the counter is incremented modulo \<open>2 ^ 32\<close>, with no overflow check.
  \<^verbatim>\<open>CreateBlock\<close> always returns 16 words and leaves the counter at
  \<open>(counter + 1) mod 2 ^ 32\<close>; \<^verbatim>\<open>XORWithKeyStream\<close> always returns as many bytes as the
  input has and leaves the counter at \<open>(counter + number of blocks) mod 2 ^ 32\<close>.
\<close>

theorem counter_wraps_silently:
  "unat (counter (snd (CreateBlock c))) = (unat (counter c) + 1) mod 2 ^ 32 \<and>
   length (fst (CreateBlock c)) = 16 \<and>
   unat (counter (snd (XORWithKeyStream c data))) =
     (unat (counter c) + (length data + 63) div 64) mod 2 ^ 32 \<and>
   length (fst (XORWithKeyStream c data)) = length data"
  using CreateBlock_counter_unat[of c] length_CreateBlock[of c]
    XORWithKeyStream_counter_unat[of c data] length_XORWithKeyStream[of c data]
  by blast

subsection \<open>Poly1305\<close>

lemma SetBytes_rev: "SetBytes (rev bs) = int (spec_le_nat bs)"
  by (induction bs) (simp_all add: SetBytes_def spec_le_nat_def)

lemma length_spec_le_bytes [simp]: "length (spec_le_bytes k n) = k"
  by (induction k arbitrary: n) simp_all

lemma spec_le_bytes_nth:
  "i < k \<Longrightarrow> spec_le_bytes k n ! i = of_nat (n div 256 ^ i)"
proof (induction k arbitrary: n i)
  case 0
  then show ?case by simp
next
  case (Suc k)
  show ?case
  proof (cases i)
    case 0
    have "(of_nat (n mod 256) :: byte) = of_nat n"
      by (simp add: word_of_nat_eq_iff take_bit_nat_def)
    then show ?thesis using 0 by simp
  next
    case (Suc i')
    then show ?thesis using Suc.IH[of i' "n div 256"] Suc.prems
      by (simp add: div_mult2_eq)
  qed
qed

lemma spec_le_nat_le_bytes: "n < 256 ^ k \<Longrightarrow> spec_le_nat (spec_le_bytes k n) = n"
proof (induction k arbitrary: n)
  case 0
  then show ?case by (simp add: spec_le_nat_def)
next
  case (Suc k)
  have "n div 256 < 256 ^ k" using Suc.prems by (simp add: less_mult_imp_div_less mult.commute)
  then have "spec_le_nat (spec_le_bytes k (n div 256)) = n div 256" by (rule Suc.IH)
  then show ?case
    by (simp add: spec_le_nat_def unat_of_nat take_bit_nat_def)
qed

lemma bytes_be_0 [simp]: "bytes_be 0 = []"
  by (simp add: bytes_be.simps)

lemma bytes_be_pos: "0 < n \<Longrightarrow> bytes_be n = bytes_be (n div 256) @ [of_nat (n mod 256)]"
  by (subst bytes_be.simps) simp

lemma bytes_be_bound: "n < 256 ^ length (bytes_be n)"
proof (induction n rule: bytes_be.induct)
  case (1 n)
  show ?case
  proof (cases "n = 0")
    case True
    then show ?thesis by simp
  next
    case False
    then have "n div 256 < 256 ^ length (bytes_be (n div 256))" using 1 by simp
    then have "n < 256 * 256 ^ length (bytes_be (n div 256))"
      by (simp add: div_less_iff_less_mult mult.commute)
    then show ?thesis using False by (simp add: bytes_be_pos)
  qed
qed

lemma rev_bytes_be: "rev (bytes_be n) = spec_le_bytes (length (bytes_be n)) n"
proof (induction n rule: bytes_be.induct)
  case (1 n)
  show ?case
  proof (cases "n = 0")
    case True
    then show ?thesis by simp
  next
    case False
    then show ?thesis using 1 by (simp add: bytes_be_pos)
  qed
qed

lemma spec_le_bytes_extend:
  assumes "n < 256 ^ k"
  shows "spec_le_bytes (k + m) n = spec_le_bytes k n @ replicate m 0"
  using assms
proof (induction k arbitrary: n)
  case 0
  then have "n = 0" by simp
  then show ?case by (induction m) simp_all
next
  case (Suc k)
  have "n div 256 < 256 ^ k" using Suc.prems by (simp add: less_mult_imp_div_less mult.commute)
  then show ?case using Suc.IH by simp
qed

lemma spec_le_bytes_take: "k \<le> m \<Longrightarrow> take k (spec_le_bytes m n) = spec_le_bytes k n"
proof (induction k arbitrary: m n)
  case 0
  then show ?case by simp
next
  case (Suc k)
  then obtain m' where "m = Suc m'" by (cases m) simp_all
  then show ?case using Suc by simp
qed


lemma spec_le_bytes_mod: "spec_le_bytes k (n mod 256 ^ k) = spec_le_bytes k n"
proof (induction k arbitrary: n)
  case 0
  then show ?case by simp
next
  case (Suc k)
  have a: "n mod 256 ^ Suc k mod 256 = n mod 256"
    by (simp add: mod_mod_cancel)
  have b: "n mod 256 ^ Suc k div 256 = n div 256 mod 256 ^ k"
    using mod_mult2_eq[of n 256 "256 ^ k"] by simp
  show ?case by (simp only: spec_le_bytes.simps a b Suc.IH)
qed

lemma fold_prepend_zeros:
  "fold (\<lambda>_ result. [0x00] @ result) [0..<k] (result::byte list) = replicate k 0 @ result"
  by (induction k) (simp_all add: replicate_app_Cons_same)

lemma tag_serialisation:
  fixes x :: nat
  defines "result \<equiv> bytes_be x"
  defines "padded \<equiv> leftPad16 result"
  shows "copy_into (replicate 16 0) 0 16 (rev (drop (length padded - 16) padded)) = spec_le_bytes 16 x"
proof -
  let ?n = "length result"
  have bound: "x < 256 ^ ?n" unfolding result_def by (rule bytes_be_bound)
  have rv: "rev result = spec_le_bytes ?n x" unfolding result_def by (rule rev_bytes_be)
  have "rev (drop (length padded - 16) padded) = spec_le_bytes 16 x"
  proof (cases "?n < 16")
    case True
    then have p: "padded = replicate (16 - ?n) 0 @ result"
      by (simp add: padded_def leftPad16_def Let_def fold_prepend_zeros)
    then have "rev (drop (length padded - 16) padded) = spec_le_bytes ?n x @ replicate (16 - ?n) 0"
      using True rv by simp
    also have "\<dots> = spec_le_bytes (?n + (16 - ?n)) x"
      by (rule spec_le_bytes_extend[OF bound, symmetric])
    finally show ?thesis using True by simp
  next
    case False
    then have p: "padded = result" by (simp add: padded_def leftPad16_def)
    have "rev (drop (?n - 16) result) = take 16 (rev result)"
      using False by (simp add: rev_drop)
    then show ?thesis using False by (simp add: p rv spec_le_bytes_take)
  qed
  then show ?thesis by (simp add: copy_into_def)
qed


lemma ceilDiv_16_Suc: "0 < N \<Longrightarrow> ceilDiv N 16 = Suc (ceilDiv (N - 16) 16)"
proof (cases "N < 16")
  case True
  assume "0 < N"
  then have "16 \<le> N + 15" "N + 15 < 32" using True by simp_all
  then have "(N + 15) div 16 = 1" by linarith
  then show ?thesis using True by (simp add: ceilDiv_def)
next
  case False
  then obtain M where "N = M + 16" by (metis add.commute le_Suc_ex not_less)
  then show ?thesis by (simp add: ceilDiv_def)
qed

lemma ceilDiv_0 [simp]: "ceilDiv 0 16 = 0"
  by (simp add: ceilDiv_def)

lemma length_spec_chunks_16: "length (spec_chunks 16 xs) = ceilDiv (length xs) 16"
proof (induction "16::nat" xs rule: spec_chunks.induct)
  case (1 xs)
  show ?case
  proof (cases "xs = []")
    case True
    then show ?thesis by simp
  next
    case False
    then have "length (spec_chunks 16 (drop 16 xs)) = ceilDiv (length xs - 16) 16"
      using 1 by simp
    then show ?thesis using False ceilDiv_16_Suc[of "length xs"]
      by (simp add: spec_chunks_step)
  qed
qed

lemma spec_chunks_16_nth:
  "i < length (spec_chunks 16 xs) \<Longrightarrow> spec_chunks 16 xs ! i = take 16 (drop (i * 16) xs)"
proof (induction "16::nat" xs arbitrary: i rule: spec_chunks.induct)
  case (1 xs)
  show ?case
  proof (cases "xs = []")
    case True
    then show ?thesis using "1.prems" by simp
  next
    case False
    then have st: "spec_chunks 16 xs = take 16 xs # spec_chunks 16 (drop 16 xs)"
      by (simp add: spec_chunks_step)
    show ?thesis
    proof (cases i)
      case 0
      then show ?thesis by (simp add: st)
    next
      case (Suc i')
      then have "i' < length (spec_chunks 16 (drop 16 xs))" using "1.prems" st by simp
      then have "spec_chunks 16 (drop 16 xs) ! i' = take 16 (drop (i' * 16) (drop 16 xs))"
        using "1.hyps" False by simp
      then show ?thesis using Suc by (simp add: st add.commute)
    qed
  qed
qed

lemma ceilDiv_16_less: "i < ceilDiv N 16 \<longleftrightarrow> 16 * i < N"
  unfolding ceilDiv_def by linarith

lemma tagStep_block:
  assumes "i < ceilDiv (length data) 16"
  shows "tagStep data i p =
     p\<lparr>accum := ((accum p + int (spec_le_nat (spec_chunks 16 data ! i @ [0x01]))) * poly_r p)
                   mod poly1305_P\<rparr>"
proof -
  have i: "i < length (spec_chunks 16 data)" using assms by (simp add: length_spec_chunks_16)
  have "(if (i + 1) * 16 < length data then slice data (i * 16) ((i + 1) * 16) else drop (i * 16) data)
        = take 16 (drop (i * 16) data)"
    by (simp add: slice_def)
  then show ?thesis
    unfolding tagStep_def Let_def poly1305_BlockSize_def
    by (simp only: spec_chunks_16_nth[OF i] SetBytes_rev)
qed

lemma tagStep_fields [simp]:
  "poly_r (tagStep data i p) = poly_r p" "poly_s (tagStep data i p) = poly_s p"
  by (simp_all add: tagStep_def Let_def)

lemma tag_loop:
  assumes "n \<le> ceilDiv (length data) 16"
  shows "fold (tagStep data) [0..<n] p =
     p\<lparr>accum := foldl (\<lambda>acc blk. ((acc + int (spec_le_nat (blk @ [0x01]))) * poly_r p) mod poly1305_P)
                      (accum p) (take n (spec_chunks 16 data))\<rparr>"
  using assms
proof (induction n)
  case 0
  then show ?case by simp
next
  case (Suc n)
  then have n: "n < ceilDiv (length data) 16" by simp
  then have l: "n < length (spec_chunks 16 data)" by (simp add: length_spec_chunks_16)
  show ?case using Suc n
    by (simp add: tagStep_block take_Suc_conv_app_nth[OF l])
qed

lemma poly1305_P_eq: "poly1305_P = 2 ^ 130 - 5"
  by (simp add: poly1305_P_def)

lemma GenerateTag_loop:
  "fold (tagStep data) [0..<ceilDiv (length data) 16] p =
     p\<lparr>accum := spec_poly1305_blocks (poly_r p) (accum p) data\<rparr>"
  using tag_loop[of "ceilDiv (length data) 16" data p]
  by (simp add: spec_poly1305_blocks_def length_spec_chunks_16[symmetric] poly1305_P_eq)

lemma GenerateTag_snd:
  "snd (GenerateTag p data) = p\<lparr>accum := spec_poly1305_blocks (poly_r p) (accum p) data\<rparr>"
  by (simp add: GenerateTag_def Let_def poly1305_BlockSize_def GenerateTag_loop)

lemma GenerateTag_fst:
  "fst (GenerateTag p data) =
     spec_le_bytes 16 (nat \<bar>spec_poly1305_blocks (poly_r p) (accum p) data + poly_s p\<bar>)"
  unfolding GenerateTag_def Let_def poly1305_BlockSize_def GenerateTag_loop Bytes_def
  by (simp add: tag_serialisation)

lemma length_GenerateTag [simp]: "length (fst (GenerateTag p data)) = 16"
  by (simp add: GenerateTag_fst)


lemma length_clamp [simp]: "length (clamp r) = length r"
  by (simp add: clamp_def Let_def)

lemma clamp_spec:
  assumes "length r = 16"
  shows "clamp r = spec_clamp r"
proof (rule nth_equalityI)
  show "length (clamp r) = length (spec_clamp r)" by (simp add: spec_clamp_def)
next
  fix i assume "i < length (clamp r)"
  then have i: "i < 16" using assms by simp
  have "clamp r ! i = (if i \<in> {3, 7, 11, 15} then r ! i AND 0x0f
                       else if i \<in> {4, 8, 12} then r ! i AND 0xfc else r ! i)"
    using i assms by (simp add: clamp_def Let_def nth_list_update)
  then show "clamp r ! i = spec_clamp r ! i"
    using i assms by (simp add: spec_clamp_def)
qed

lemma NewPoly1305_fields:
  assumes "length keyb = 32"
  shows "accum (NewPoly1305 keyb) = 0"
    and "poly_r (NewPoly1305 keyb) = int (spec_le_nat (spec_clamp (take 16 keyb)))"
    and "poly_s (NewPoly1305 keyb) = int (spec_le_nat (drop 16 keyb))"
proof -
  have r: "copy_into (replicate 16 0) 0 16 (slice keyb 0 16) = take 16 keyb"
    using assms by (simp add: copy_into_def slice_def)
  have s: "copy_into (replicate 16 0) 0 16 (slice keyb 16 32) = drop 16 keyb"
    using assms by (simp add: copy_into_def slice_def)
  show "accum (NewPoly1305 keyb) = 0" by (simp add: NewPoly1305_def Let_def)
  show "poly_r (NewPoly1305 keyb) = int (spec_le_nat (spec_clamp (take 16 keyb)))"
    using assms by (simp add: NewPoly1305_def Let_def r SetBytes_rev clamp_spec)
  show "poly_s (NewPoly1305 keyb) = int (spec_le_nat (drop 16 keyb))"
    by (simp add: NewPoly1305_def Let_def s SetBytes_rev)
qed

lemma spec_poly1305_blocks_nonneg:
  "0 \<le> acc \<Longrightarrow> 0 \<le> spec_poly1305_blocks r acc msg"
proof -
  have "0 \<le> acc \<Longrightarrow> 0 \<le> foldl (\<lambda>acc blk. ((acc + int (spec_le_nat (blk @ [0x01]))) * r) mod (2 ^ 130 - 5)) acc xs" for xs
    by (induction xs arbitrary: acc) simp_all
  then show "0 \<le> acc \<Longrightarrow> 0 \<le> spec_poly1305_blocks r acc msg"
    by (simp add: spec_poly1305_blocks_def)
qed

lemma GenerateTag_tag:
  assumes "0 \<le> accum p" "0 \<le> poly_s p"
  shows "fst (GenerateTag p data) = spec_poly1305_tag (poly_r p) (poly_s p) (accum p) data"
proof -
  let ?x = "spec_poly1305_blocks (poly_r p) (accum p) data + poly_s p"
  have x: "0 \<le> ?x" using spec_poly1305_blocks_nonneg[OF assms(1)] assms(2) by simp
  have "nat (?x mod 2 ^ 128) = nat ?x mod 256 ^ 16"
    using x by (simp add: nat_mod_distrib)
  then have "spec_le_bytes 16 (nat (?x mod 2 ^ 128)) = spec_le_bytes 16 (nat ?x)"
    by (simp only: spec_le_bytes_mod)
  then show ?thesis using x by (simp add: GenerateTag_fst spec_poly1305_tag_def)
qed

lemma spec_le_bytes_numeral:
  "spec_le_bytes (numeral k) n = of_nat (n mod 256) # spec_le_bytes (pred_numeral k) (n div 256)"
proof -
  have "spec_le_bytes (numeral k) n = spec_le_bytes (Suc (pred_numeral k)) n"
    by (simp only: numeral_eq_Suc)
  then show ?thesis by simp
qed

text \<open>
  Claim C4. \<^verbatim>\<open>NewPoly1305\<close> on a 32-byte key starts the accumulator at 0, takes \<open>r\<close> as the
  little-endian value of the first 16 bytes with the top four bits of bytes 3, 7, 11, 15 and
  the bottom two bits of bytes 4, 8, 12 cleared, and \<open>s\<close> as the little-endian value of the
  last 16 bytes. \<^verbatim>\<open>GenerateTag\<close> then reads the message in consecutive blocks of at most
  16 bytes, each with one byte \<open>0x01\<close> appended and read little-endian as \<open>n\<close>, updates the
  accumulator to \<open>((accumulator + n) * r) mod (2 ^ 130 - 5)\<close>, and returns
  \<open>(accumulator + s) mod 2 ^ 128\<close> as 16 little-endian bytes.
\<close>

theorem Poly1305_tag_spec:
  assumes "length keyb = 32"
  shows "let p = NewPoly1305 keyb in
     accum p = 0 \<and>
     poly_r p = int (spec_le_nat (spec_clamp (take 16 keyb))) \<and>
     poly_s p = int (spec_le_nat (drop 16 keyb)) \<and>
     accum (snd (GenerateTag p msg)) = spec_poly1305_blocks (poly_r p) 0 msg \<and>
     fst (GenerateTag p msg) = spec_poly1305_tag (poly_r p) (poly_s p) 0 msg"
proof -
  let ?p = "NewPoly1305 keyb"
  note f = NewPoly1305_fields[OF assms]
  have "fst (GenerateTag ?p msg) = spec_poly1305_tag (poly_r ?p) (poly_s ?p) (accum ?p) msg"
    by (rule GenerateTag_tag) (simp_all add: f)
  then show ?thesis
    using f by (simp add: Let_def GenerateTag_snd)
qed

text \<open>
  Claim C10. \<^verbatim>\<open>GenerateTag\<close> can be called again on the same instance, and the accumulator
  is not reset: the second call starts its block updates from the accumulator that the first
  call left, not from 0, and its tag is computed from there; \<open>r\<close> and \<open>s\<close> are the same
  after every call.
\<close>

theorem GenerateTag_accumulator_persists:
  "let p1 = snd (GenerateTag p d1); p2 = snd (GenerateTag p1 d2) in
     poly_r p1 = poly_r p \<and> poly_s p1 = poly_s p \<and>
     poly_r p2 = poly_r p \<and> poly_s p2 = poly_s p \<and>
     accum p1 = spec_poly1305_blocks (poly_r p) (accum p) d1 \<and>
     accum p2 = spec_poly1305_blocks (poly_r p) (accum p1) d2 \<and>
     fst (GenerateTag p1 d2) =
       spec_le_bytes 16 (nat \<bar>spec_poly1305_blocks (poly_r p) (accum p1) d2 + poly_s p\<bar>)"
  by (simp add: Let_def GenerateTag_snd GenerateTag_fst)

text \<open>The tag of RFC 8439, section 2.5.2, which is also the first tag of the instance, and
  the tag that a second call on the same instance returns for the same message.\<close>

lemma k_len: "length rfc8439_poly1305_key = 32"
  by (simp add: rfc8439_poly1305_key_def)

lemma r_val: "spec_le_nat (spec_clamp (take 16 rfc8439_poly1305_key)) = 0x806d5400e52447c036d555408bed685"
  by (simp add: rfc8439_poly1305_key_def spec_clamp_def spec_le_nat_def upt_rec)

lemma s_val: "spec_le_nat (drop 16 rfc8439_poly1305_key) = 0x1bf54941aff6bf4afdb20dfb8a800301"
  by (simp add: rfc8439_poly1305_key_def spec_le_nat_def)

lemma acc_val: "spec_poly1305_blocks 0x806d5400e52447c036d555408bed685 0 rfc8439_poly1305_msg
   = 0x28d31b7caff946c77c8844335369d03a7"
  by (simp add: spec_poly1305_blocks_def rfc8439_poly1305_msg_def spec_chunks_step spec_le_nat_def)

lemma tag_val:
  "spec_le_bytes 16 (nat ((0x28d31b7caff946c77c8844335369d03a7 + 0x1bf54941aff6bf4afdb20dfb8a800301) mod 2 ^ 128)) =
     [0xa8, 0x06, 0x1d, 0xc1, 0x30, 0x51, 0x36, 0xc6, 0xc2, 0x2b, 0x8b, 0xaf, 0x0c, 0x01, 0x27, 0xa9]"
  by (simp add: spec_le_bytes_numeral)

theorem Poly1305_tag_spec_witness:
  "length rfc8439_poly1305_key = 32 \<and>
   fst (GenerateTag (NewPoly1305 rfc8439_poly1305_key) rfc8439_poly1305_msg) =
     [0xa8, 0x06, 0x1d, 0xc1, 0x30, 0x51, 0x36, 0xc6, 0xc2, 0x2b, 0x8b, 0xaf, 0x0c, 0x01, 0x27, 0xa9]"
proof -
  let ?p = "NewPoly1305 rfc8439_poly1305_key"
  from Poly1305_tag_spec[OF k_len, of rfc8439_poly1305_msg]
  have r: "poly_r ?p = int (spec_le_nat (spec_clamp (take 16 rfc8439_poly1305_key)))"
    and s: "poly_s ?p = int (spec_le_nat (drop 16 rfc8439_poly1305_key))"
    and t: "fst (GenerateTag ?p rfc8439_poly1305_msg) =
              spec_poly1305_tag (poly_r ?p) (poly_s ?p) 0 rfc8439_poly1305_msg"
    by (simp_all only: Let_def)
  have r': "poly_r ?p = 0x806d5400e52447c036d555408bed685" unfolding r r_val by simp
  have s': "poly_s ?p = 0x1bf54941aff6bf4afdb20dfb8a800301" unfolding s s_val by simp
  have "fst (GenerateTag ?p rfc8439_poly1305_msg) =
     [0xa8, 0x06, 0x1d, 0xc1, 0x30, 0x51, 0x36, 0xc6, 0xc2, 0x2b, 0x8b, 0xaf, 0x0c, 0x01, 0x27, 0xa9]"
    unfolding t r' s' spec_poly1305_tag_def acc_val by (rule tag_val)
  then show ?thesis using k_len by simp
qed


lemma acc2_val: "spec_poly1305_blocks 0x806d5400e52447c036d555408bed685
     0x28d31b7caff946c77c8844335369d03a7 rfc8439_poly1305_msg
   = 0x32f28adbe2733b2d34b8200972915ab18"
  by (simp add: spec_poly1305_blocks_def rfc8439_poly1305_msg_def spec_chunks_step spec_le_nat_def)

lemma tag2_val:
  "spec_le_bytes 16 (nat \<bar>0x32f28adbe2733b2d34b8200972915ab18 + 0x1bf54941aff6bf4afdb20dfb8a800301\<bar>) =
     [0x19, 0xae, 0x95, 0xb3, 0x92, 0x0e, 0x34, 0x49, 0x1e, 0x72, 0x2a, 0xd7, 0xff, 0xf6, 0x1d, 0x4b]"
  by (simp add: spec_le_bytes_numeral)

lemma rfc8439_poly1305_second_call:
  "fst (GenerateTag (snd (GenerateTag (NewPoly1305 rfc8439_poly1305_key) rfc8439_poly1305_msg))
          rfc8439_poly1305_msg) =
     [0x19, 0xae, 0x95, 0xb3, 0x92, 0x0e, 0x34, 0x49, 0x1e, 0x72, 0x2a, 0xd7, 0xff, 0xf6, 0x1d, 0x4b]"
proof -
  let ?p = "NewPoly1305 rfc8439_poly1305_key"
  note f = NewPoly1305_fields[OF k_len]
  have r': "poly_r ?p = 0x806d5400e52447c036d555408bed685" unfolding f r_val by simp
  have s': "poly_s ?p = 0x1bf54941aff6bf4afdb20dfb8a800301" unfolding f s_val by simp
  have a1: "accum (snd (GenerateTag ?p rfc8439_poly1305_msg)) = 0x28d31b7caff946c77c8844335369d03a7"
    unfolding GenerateTag_snd by (simp add: r' f acc_val)
  have r1: "poly_r (snd (GenerateTag ?p rfc8439_poly1305_msg)) = 0x806d5400e52447c036d555408bed685"
    and s1: "poly_s (snd (GenerateTag ?p rfc8439_poly1305_msg)) = 0x1bf54941aff6bf4afdb20dfb8a800301"
    by (simp_all add: GenerateTag_snd r' s')
  show ?thesis
    unfolding GenerateTag_fst[of "snd (GenerateTag ?p rfc8439_poly1305_msg)"] a1 r1 s1 acc2_val
    by (rule tag2_val)
qed

subsection \<open>The AEAD compositions\<close>

lemma Encrypt_result:
  "fst (Encrypt a plaintext aad) =
     (fst (XORWithKeyStream (chacha20 a) plaintext),
      fst (GenerateTag (poly1305 a)
             (generatePoly1305Input aad (fst (XORWithKeyStream (chacha20 a) plaintext)))))"
  by (simp add: Encrypt_def Let_def split: prod.splits)

lemma Decrypt_result:
  "Decrypt a ciphertext aad tag =
     (if tag \<noteq> fst (GenerateTag (poly1305 a) (generatePoly1305Input aad ciphertext))
      then (([], Some ErrInvalidTag),
            a\<lparr>poly1305 := snd (GenerateTag (poly1305 a) (generatePoly1305Input aad ciphertext))\<rparr>)
      else ((fst (XORWithKeyStream (chacha20 a) ciphertext), None),
            a\<lparr>chacha20 := snd (XORWithKeyStream (chacha20 a) ciphertext),
              poly1305 := snd (GenerateTag (poly1305 a) (generatePoly1305Input aad ciphertext))\<rparr>))"
  by (simp add: Decrypt_def Let_def split: prod.splits)

lemma XEncrypt_result:
  "fst (XEncrypt a plaintext aad) =
     (fst (XORWithKeyStream (xchacha20_chacha20 (xchacha20 a)) plaintext),
      fst (GenerateTag (xpoly1305 a)
             (generatePoly1305Input aad (fst (XORWithKeyStream (xchacha20_chacha20 (xchacha20 a)) plaintext)))))"
  by (simp add: XEncrypt_def XChaCha20_XORWithKeyStream_def GeneratePoly1305Input_def Let_def
      split: prod.splits)

lemma XDecrypt_result:
  "XDecrypt a ciphertext aad tag =
     (if tag \<noteq> fst (GenerateTag (xpoly1305 a) (generatePoly1305Input aad ciphertext))
      then (([], Some ErrInvalidTag),
            a\<lparr>xpoly1305 := snd (GenerateTag (xpoly1305 a) (generatePoly1305Input aad ciphertext))\<rparr>)
      else ((fst (XORWithKeyStream (xchacha20_chacha20 (xchacha20 a)) ciphertext), None),
            a\<lparr>xchacha20 := (xchacha20 a)\<lparr>xchacha20_chacha20 :=
                               snd (XORWithKeyStream (xchacha20_chacha20 (xchacha20 a)) ciphertext)\<rparr>,
              xpoly1305 := snd (GenerateTag (xpoly1305 a) (generatePoly1305Input aad ciphertext))\<rparr>))"
  by (simp add: XDecrypt_def XChaCha20_XORWithKeyStream_def GeneratePoly1305Input_def Let_def
      split: prod.splits)

text \<open>
  Claim C1. For a 32-byte key, a 12-byte nonce (ChaCha20-Poly1305) or a 24-byte nonce
  (XChaCha20-Poly1305), any plaintext and any associated data: when \<^verbatim>\<open>Encrypt\<close> on a freshly
  constructed instance returns a ciphertext and a tag, \<^verbatim>\<open>Decrypt\<close> of that ciphertext, the
  same associated data and that tag on a second freshly constructed instance with the same key
  and nonce returns the plaintext and no error.
\<close>

theorem AEAD_round_trip:
  assumes "length keyb = 32" "length nonce12 = 12" "length nonce24 = 24"
  shows "(case fst (Encrypt (NewChaCha20Poly1305 keyb nonce12) plaintext aad) of
            (ciphertext, tag) \<Rightarrow>
              fst (Decrypt (NewChaCha20Poly1305 keyb nonce12) ciphertext aad tag) = (plaintext, None))
       \<and> (case fst (XEncrypt (NewXChaCha20Poly1305 keyb nonce24) plaintext aad) of
            (ciphertext, tag) \<Rightarrow>
              fst (XDecrypt (NewXChaCha20Poly1305 keyb nonce24) ciphertext aad tag) = (plaintext, None))"
  by (simp add: Encrypt_result Decrypt_result XEncrypt_result XDecrypt_result
        XORWithKeyStream_involution)



theorem AEAD_round_trip_witness:
  "length rfc8439_aead_key = 32 \<and> length rfc8439_aead_nonce = 12 \<and> length xchacha_aead_nonce = 24 \<and>
   fst (Decrypt (NewChaCha20Poly1305 rfc8439_aead_key rfc8439_aead_nonce)
          (fst (fst (Encrypt (NewChaCha20Poly1305 rfc8439_aead_key rfc8439_aead_nonce)
                       test_message rfc8439_aead_aad)))
          rfc8439_aead_aad
          (snd (fst (Encrypt (NewChaCha20Poly1305 rfc8439_aead_key rfc8439_aead_nonce)
                       test_message rfc8439_aead_aad))))
     = (test_message, None) \<and>
   fst (XDecrypt (NewXChaCha20Poly1305 rfc8439_aead_key xchacha_aead_nonce)
          (fst (fst (XEncrypt (NewXChaCha20Poly1305 rfc8439_aead_key xchacha_aead_nonce)
                       test_message rfc8439_aead_aad)))
          rfc8439_aead_aad
          (snd (fst (XEncrypt (NewXChaCha20Poly1305 rfc8439_aead_key xchacha_aead_nonce)
                       test_message rfc8439_aead_aad))))
     = (test_message, None)"
proof -
  have k: "length rfc8439_aead_key = 32" by (simp add: rfc8439_aead_key_def)
  have n: "length rfc8439_aead_nonce = 12" by (simp add: rfc8439_aead_nonce_def)
  have x: "length xchacha_aead_nonce = 24" by (simp add: xchacha_aead_nonce_def)
  from AEAD_round_trip[OF k n x, where plaintext = test_message and aad = rfc8439_aead_aad]
  show ?thesis using k n x by (simp add: prod.case_eq_if)
qed

subsection \<open>Key derivation and framing\<close>

lemma of_nat_unat_div:
  "(of_nat (unat (w::uint32) div 2 ^ k) :: byte) = ucast (drop_bit k w)"
proof -
  have "unat w div 2 ^ k = unat (drop_bit k w)"
    by (simp add: unat_drop_bit_eq drop_bit_nat_def)
  then show ?thesis by simp
qed

lemma of_nat_mod_256: "(of_nat (n mod 256) :: byte) = of_nat n"
  by (simp add: word_of_nat_eq_iff take_bit_nat_def)

lemma spec_word_bytes_eq:
  "spec_word_bytes w = [ucast w, ucast (drop_bit 8 w), ucast (drop_bit 16 w), ucast (drop_bit 24 w)]"
proof -
  have e: "spec_le_bytes 4 n = [of_nat n, of_nat (n div 2 ^ 8), of_nat (n div 2 ^ 16), of_nat (n div 2 ^ 24)]" for n
  proof (rule nth_equalityI)
    show "length (spec_le_bytes 4 n) = length [of_nat n :: byte, of_nat (n div 2 ^ 8), of_nat (n div 2 ^ 16), of_nat (n div 2 ^ 24)]"
      by simp
  next
    fix i assume "i < length (spec_le_bytes 4 n)"
    then have "i < 4" by simp
    then consider "i = 0" | "i = 1" | "i = 2" | "i = 3" by linarith
    then show "spec_le_bytes 4 n ! i = [of_nat n :: byte, of_nat (n div 2 ^ 8), of_nat (n div 2 ^ 16), of_nat (n div 2 ^ 24)] ! i"
      by cases (simp_all add: spec_le_bytes_nth)
  qed
  show ?thesis
    unfolding spec_word_bytes_def e
    using of_nat_unat_div[of w 0] of_nat_unat_div[of w 8] of_nat_unat_div[of w 16] of_nat_unat_div[of w 24]
    by simp
qed

lemma putWord_append:
  assumes "4 \<le> length ys"
  shows "putWord (xs @ ys) (length xs) w = xs @ spec_word_bytes w @ drop 4 ys"
proof -
  have "length (take 4 ys) = 4" using assms by simp
  then obtain y0 y1 y2 y3 where t: "take 4 ys = [y0, y1, y2, y3]" by (rule list4_cases)
  have "ys = take 4 ys @ drop 4 ys" by simp
  then have ys: "ys = y0 # y1 # y2 # y3 # drop 4 ys" using t by simp
  have "putWord (xs @ y0 # y1 # y2 # y3 # zs) (length xs) w = xs @ spec_word_bytes w @ zs" for zs
    by (simp add: putWord_def Let_def list_update_append spec_word_bytes_eq)
  then show ?thesis using ys by metis
qed

lemma fold_putWord:
  assumes "n \<le> length ws" "off + 4 * n \<le> length res"
  shows "fold (\<lambda>i r. putWord r (i * 4 + off) (ws ! i)) [0..<n] res =
           take off res @ spec_block_bytes (take n ws) @ drop (off + 4 * n) res"
  using assms
proof (induction n)
  case 0
  then show ?case by (simp add: spec_block_bytes_def)
next
  case (Suc n)
  let ?pre = "take off res @ spec_block_bytes (take n ws)"
  have lp: "length ?pre = n * 4 + off"
    using Suc.prems by (simp add: spec_block_bytes_def length_concat comp_def spec_word_bytes_def sum_list_triv)
  have "fold (\<lambda>i r. putWord r (i * 4 + off) (ws ! i)) [0..<Suc n] res =
      putWord (?pre @ drop (off + 4 * n) res) (n * 4 + off) (ws ! n)"
    using Suc by simp
  also have "\<dots> = ?pre @ spec_word_bytes (ws ! n) @ drop 4 (drop (off + 4 * n) res)"
  proof -
    have "4 \<le> length (drop (off + 4 * n) res)" using Suc.prems by simp
    from putWord_append[OF this, of ?pre "ws ! n"] show ?thesis by (simp only: lp)
  qed
  also have "\<dots> = take off res @ spec_block_bytes (take (Suc n) ws) @ drop (off + 4 * Suc n) res"
  proof -
    have "4 + (off + 4 * n) = off + 4 * Suc n" by simp
    then have "drop 4 (drop (off + 4 * n) res) = drop (off + 4 * Suc n) res"
      by (simp only: drop_drop)
    moreover have "spec_block_bytes (take (Suc n) ws) = spec_block_bytes (take n ws) @ spec_word_bytes (ws ! n)"
      using Suc.prems by (simp add: spec_block_bytes_def take_Suc_conv_app_nth)
    ultimately show ?thesis by simp
  qed
  finally show ?case .
qed


lemma length_spec_block_bytes [simp]: "length (spec_block_bytes ks) = 4 * length ks"
  by (induction ks) (simp_all add: spec_block_bytes_def spec_word_bytes_def)

lemma take_spec_block_bytes: "take (4 * n) (spec_block_bytes ks) = spec_block_bytes (take n ks)"
proof (induction ks arbitrary: n)
  case Nil
  then show ?case by (simp add: spec_block_bytes_def)
next
  case (Cons k ks)
  show ?case
  proof (cases n)
    case 0
    then show ?thesis by (simp add: spec_block_bytes_def)
  next
    case (Suc m)
    have "take (4 * m) (spec_block_bytes ks) = spec_block_bytes (take m ks)" by (rule Cons.IH)
    then show ?thesis using Suc by (simp add: spec_block_bytes_def spec_word_bytes_def)
  qed
qed

lemma fold_putWord_0:
  assumes "n \<le> length ws" "4 * n \<le> length res"
  shows "fold (\<lambda>i r. putWord r (i * 4) (ws ! i)) [0..<n] res =
           spec_block_bytes (take n ws) @ drop (4 * n) res"
  using fold_putWord[of n ws 0 res] assms by simp

lemma Poly1305KeyGen_bytes:
  assumes "length block = 16"
  shows "Poly1305KeyGen block = take 32 (spec_block_bytes block)"
proof -
  have "slice block 0 8 = take 8 block" by (simp add: slice_def)
  moreover have "length (take 8 block) = 8" using assms by simp
  ultimately have "Poly1305KeyGen block = spec_block_bytes (take 8 (take 8 block)) @ drop (4 * 8) (replicate 32 0)"
    unfolding Poly1305KeyGen_def Let_def
    using fold_putWord_0[of 8 "take 8 block" "replicate 32 0"] by simp
  then show ?thesis using take_spec_block_bytes[of 8 block] by simp
qed

lemma poly1305KeyGen_eq:
  "poly1305KeyGen c = (take 32 (spec_block_bytes (fst (CreateBlock c))), snd (CreateBlock c))"
proof -
  have "poly1305KeyGen c = (Poly1305KeyGen (fst (CreateBlock c)), snd (CreateBlock c))"
    by (simp add: poly1305KeyGen_def Poly1305KeyGen_def Let_def case_prod_beta)
  then show ?thesis by (simp add: Poly1305KeyGen_bytes)
qed

lemma NewChaCha20Poly1305_fields:
  "chacha20 (NewChaCha20Poly1305 keyb nonceb) =
     snd (CreateBlock (NewChaCha20 keyb nonceb [0x00, 0x00, 0x00, 0x00]))"
  "poly1305 (NewChaCha20Poly1305 keyb nonceb) =
     NewPoly1305 (take 32 (spec_block_bytes
        (fst (CreateBlock (NewChaCha20 keyb nonceb [0x00, 0x00, 0x00, 0x00])))))"
  by (simp_all add: NewChaCha20Poly1305_def Let_def poly1305KeyGen_eq)

lemma fold_append_zeros:
  "fold (\<lambda>_ result. result @ [0x00]) [0..<k] (result::byte list) = result @ replicate k 0"
  by (induction k) (simp_all add: replicate_append_same)

lemma padTo16Bytes_eq: "padTo16Bytes data = data @ spec_zero_pad16 data"
proof (cases "length data mod 16 = 0")
  case True
  then show ?thesis by (simp add: padTo16Bytes_def spec_zero_pad16_def)
next
  case False
  then have "(16 - length data mod 16) mod 16 = 16 - length data mod 16" by simp
  then show ?thesis using False
    by (simp add: padTo16Bytes_def spec_zero_pad16_def Let_def fold_append_zeros)
qed

lemma PutUint32_eq: "PutUint32 (replicate 8 0) (of_nat n) = spec_le_bytes 8 (n mod 2 ^ 32)"
proof -
  let ?v = "of_nat n :: uint32"
  have z: "replicate 8 (0::byte) = [0, 0, 0, 0, 0, 0, 0, 0]" by (simp add: eval_nat_numeral)
  have "PutUint32 (replicate 8 0) ?v = spec_word_bytes ?v @ replicate 4 0"
    by (simp add: z PutUint32_def spec_word_bytes_eq eval_nat_numeral)
  also have "\<dots> = spec_le_bytes (4 + 4) (unat ?v)"
  proof -
    have "unat ?v < 2 ^ LENGTH(32)" by (rule unsigned_less)
    then have "unat ?v < 256 ^ 4" by simp
    from spec_le_bytes_extend[OF this, of 4] show ?thesis by (simp add: spec_word_bytes_def)
  qed
  also have "unat ?v = n mod 2 ^ 32" by (simp add: unat_of_nat take_bit_nat_def)
  finally show ?thesis by simp
qed

lemma generatePoly1305Input_eq:
  "generatePoly1305Input aad ciphertext =
     aad @ spec_zero_pad16 aad @ ciphertext @ spec_zero_pad16 ciphertext @
     spec_le_bytes 8 (length aad mod 2 ^ 32) @ spec_le_bytes 8 (length ciphertext mod 2 ^ 32)"
  by (simp add: generatePoly1305Input_def Let_def padTo16Bytes_eq PutUint32_eq)

lemma generatePoly1305Input_framing:
  assumes "length aad < 2 ^ 32" "length ciphertext < 2 ^ 32"
  shows "generatePoly1305Input aad ciphertext = spec_authenticated_input aad ciphertext"
  using assms by (simp add: generatePoly1305Input_eq spec_authenticated_input_def)

lemma length_long_aad: "length long_aad = 2 ^ 32"
  unfolding long_aad_def by (rule length_replicate)

lemma length_long_message: "length long_message = (2 ^ 32 - 1) * 64 + 1"
  unfolding long_message_def by (rule length_replicate)

lemma long_message_nth: "i < (2 ^ 32 - 1) * 64 + 1 \<Longrightarrow> long_message ! i = 0"
  unfolding long_message_def by (rule nth_replicate)

lemma spec_le_bytes_8_differ: "spec_le_bytes 8 (2 ^ 32 mod 2 ^ 32) \<noteq> spec_le_bytes 8 (2 ^ 32)"
  by (simp add: spec_le_bytes_numeral)

lemma wrap_to_key_block: "(1::uint32) + of_nat (2 ^ 32 - 1) = 0"
  by simp

lemma counter_not_key_block:
  assumes "i < 2 ^ 32 - 1"
  shows "(1::uint32) + of_nat i \<noteq> 0"
proof
  assume "(1::uint32) + of_nat i = 0"
  then have "unat ((1::uint32) + of_nat i) = 0" by simp
  moreover have "unat ((1::uint32) + of_nat i) = (1 + i) mod 2 ^ 32"
  proof -
    have "unat ((1::uint32) + of_nat i) = (1 + i mod 2 ^ 32) mod 2 ^ 32"
      by (simp add: unat_word_ariths unat_of_nat)
    also have "\<dots> = (1 + i) mod 2 ^ 32" by (rule mod_add_right_eq)
    finally show ?thesis .
  qed
  moreover have "(1 + i) mod 2 ^ 32 = 1 + i" using assms by simp
  ultimately show False by simp
qed

lemma map_unat_inj: "map unat (xs::uint32 list) = map unat ys \<Longrightarrow> xs = ys"
proof (induction xs arbitrary: ys)
  case Nil
  then show ?case by simp
next
  case (Cons x xs)
  then obtain y ys' where "ys = y # ys'" by (cases ys) simp_all
  then show ?case using Cons by (simp add: word_unat_eq_iff)
qed

lemma replicate_numeral: "replicate (numeral k) x = x # replicate (pred_numeral k) x"
proof -
  have "replicate (numeral k) x = replicate (Suc (pred_numeral k)) x"
    by (simp only: numeral_eq_Suc)
  then show ?thesis by simp
qed

text \<open>
  Claim C5 says that the key block is never reused as keystream and that the authenticated
  input carries both lengths as 8-byte little-endian integers for all associated data and
  ciphertexts. Neither holds without a bound on the lengths. The two length fields are
  written with \<^verbatim>\<open>PutUint32(..., uint32(len(...)))\<close> into 8 zero bytes, so associated data of
  \<open>2 ^ 32\<close> bytes get the length field of the empty string; and the counter wraps around
  (claim C6), so byte \<open>(2 ^ 32 - 1) * 64\<close> of a message is encrypted with the first byte of
  the block of counter 0, which is the first byte of the Poly1305 key.
\<close>

theorem AEAD_claim_counterexample:
  "generatePoly1305Input long_aad [] \<noteq> spec_authenticated_input long_aad [] \<and>
   fst (fst (Encrypt (NewChaCha20Poly1305 rfc8439_aead_key rfc8439_aead_nonce) long_message []))
       ! ((2 ^ 32 - 1) * 64) =
     spec_block_byte (fst (CreateBlock
        (NewChaCha20 rfc8439_aead_key rfc8439_aead_nonce [0x00, 0x00, 0x00, 0x00]))) 0"
proof -
  have 1: "generatePoly1305Input long_aad [] \<noteq> spec_authenticated_input long_aad []"
    unfolding generatePoly1305Input_eq spec_authenticated_input_def length_long_aad
    using spec_le_bytes_8_differ by simp
  let ?c0 = "NewChaCha20 rfc8439_aead_key rfc8439_aead_nonce [0x00, 0x00, 0x00, 0x00]"
  let ?a = "NewChaCha20Poly1305 rfc8439_aead_key rfc8439_aead_nonce"
  let ?j = "(2 ^ 32 - 1) * 64 :: nat"
  have c0: "counter ?c0 = 0" by (simp add: NewChaCha20_counter_field Uint32_00)
  have c: "chacha20 ?a = snd (CreateBlock ?c0)" by (rule NewChaCha20Poly1305_fields)
  have j: "?j < length long_message" by (simp add: length_long_message)
  have d: "?j div 64 = 2 ^ 32 - 1" "?j mod 64 = 0" by simp_all
  have "fst (fst (Encrypt ?a long_message [])) ! ?j =
      long_message ! ?j XOR spec_keystream_byte (chacha20 ?a) ?j"
    using j by (simp add: Encrypt_result XORWithKeyStream_stream spec_xor_stream_def)
  also have "long_message ! ?j = 0" by (rule long_message_nth) simp
  also have "spec_keystream_byte (chacha20 ?a) ?j = spec_block_byte (blockAt (chacha20 ?a) (2 ^ 32 - 1)) 0"
    unfolding spec_keystream_byte_def d ..
  also have "blockAt (chacha20 ?a) (2 ^ 32 - 1) = fst (CreateBlock ?c0)"
    unfolding blockAt_def
  proof (rule CreateBlock_cong)
    show "counter (chacha20 ?a\<lparr>counter := counter (chacha20 ?a) + of_nat (2 ^ 32 - 1)\<rparr>) = counter ?c0"
      using wrap_to_key_block by (simp add: c c0)
  qed (simp_all add: c)
  finally have 2: "fst (fst (Encrypt ?a long_message [])) ! ?j = spec_block_byte (fst (CreateBlock ?c0)) 0"
    by simp
  show ?thesis using 1 2 by blast
qed


text \<open>
  Claim C5 as amended. Constructing the instance produces one block at counter 0, takes its
  first 32 bytes as the Poly1305 key and leaves the counter at 1; encryption xors the
  plaintext with the keystream that starts at counter 1, whose first \<open>2 ^ 32 - 1\<close> blocks
  have a counter other than that of the key block; and for associated data and a ciphertext
  shorter than \<open>2 ^ 32\<close> bytes the authenticated input is the associated data, its zero
  padding to a multiple of 16 bytes, the ciphertext, its zero padding, and the two lengths as
  8-byte little-endian integers.
\<close>

theorem AEAD_key_derivation_and_framing:
  assumes "length keyb = 32" "length nonceb = 12"
    and "length aad < 2 ^ 32" "length ciphertext < 2 ^ 32"
  shows "let c0 = NewChaCha20 keyb nonceb [0x00, 0x00, 0x00, 0x00];
             a = NewChaCha20Poly1305 keyb nonceb in
     counter c0 = 0 \<and>
     poly1305 a = NewPoly1305 (take 32 (spec_block_bytes (fst (CreateBlock c0)))) \<and>
     chacha20 a = snd (CreateBlock c0) \<and>
     counter (chacha20 a) = 1 \<and>
     fst (fst (Encrypt a plaintext aad)) = spec_xor_stream (chacha20 a) plaintext \<and>
     (\<forall>i < 2 ^ 32 - 1. counter (chacha20 a) + of_nat i \<noteq> counter c0) \<and>
     generatePoly1305Input aad ciphertext = spec_authenticated_input aad ciphertext"
proof -
  let ?c0 = "NewChaCha20 keyb nonceb [0x00, 0x00, 0x00, 0x00]"
  let ?a = "NewChaCha20Poly1305 keyb nonceb"
  have c0: "counter ?c0 = 0" by (simp add: NewChaCha20_counter_field Uint32_00)
  have c: "chacha20 ?a = snd (CreateBlock ?c0)" by (rule NewChaCha20Poly1305_fields)
  have p: "poly1305 ?a = NewPoly1305 (take 32 (spec_block_bytes (fst (CreateBlock ?c0))))"
    by (rule NewChaCha20Poly1305_fields)
  have c1: "counter (chacha20 ?a) = 1" by (simp add: c c0)
  have e: "fst (fst (Encrypt ?a plaintext aad)) = spec_xor_stream (chacha20 ?a) plaintext"
    by (simp add: Encrypt_result XORWithKeyStream_stream)
  have n: "\<forall>i < 2 ^ 32 - 1. counter (chacha20 ?a) + of_nat i \<noteq> counter ?c0"
    unfolding c1 c0 using counter_not_key_block by blast
  have f: "generatePoly1305Input aad ciphertext = spec_authenticated_input aad ciphertext"
    using assms(3,4) by (rule generatePoly1305Input_framing)
  show ?thesis unfolding Let_def using c0 p c c1 e n f by blast
qed

text \<open>The block that gives the Poly1305 key of RFC 8439, section 2.8.2, one double round at
  a time.\<close>

lemma rfc8439_aead_block_round_1:
  "spec_double_round
     [0x61707865, 0x3320646e, 0x79622d32, 0x6b206574,
     0x83828180, 0x87868584, 0x8b8a8988, 0x8f8e8d8c,
     0x93929190, 0x97969594, 0x9b9a9998, 0x9f9e9d9c,
     0x00000000, 0x00000007, 0x43424140, 0x47464544] =
     [0xd4a5898f, 0x9c2468ba, 0xe6c90930, 0x8d4081e7,
     0xd2b9f16e, 0x8cd4969f, 0x839d6c04, 0x2c1186d3,
     0x7d6565ba, 0xec767306, 0x53e9a9fc, 0x3ed296a8,
     0x038a0a06, 0x31f5cbd0, 0x5f595599, 0x75a50712]"
  by (simp add: spec_eval)

lemma rfc8439_aead_block_round_2:
  "spec_double_round
     [0xd4a5898f, 0x9c2468ba, 0xe6c90930, 0x8d4081e7,
     0xd2b9f16e, 0x8cd4969f, 0x839d6c04, 0x2c1186d3,
     0x7d6565ba, 0xec767306, 0x53e9a9fc, 0x3ed296a8,
     0x038a0a06, 0x31f5cbd0, 0x5f595599, 0x75a50712] =
     [0x95a933b1, 0x5afa3ce5, 0x4540a4cf, 0x7f9ebd49,
     0x5ce1c3ed, 0xc30a349d, 0x7c835f39, 0xb99f7208,
     0x1bb4a1d6, 0xa7e3233b, 0x1ad0d682, 0x786cdc7c,
     0x9e8aab27, 0x33b66556, 0x16884b38, 0x0749e1f2]"
  by (simp add: spec_eval)

lemma rfc8439_aead_block_round_3:
  "spec_double_round
     [0x95a933b1, 0x5afa3ce5, 0x4540a4cf, 0x7f9ebd49,
     0x5ce1c3ed, 0xc30a349d, 0x7c835f39, 0xb99f7208,
     0x1bb4a1d6, 0xa7e3233b, 0x1ad0d682, 0x786cdc7c,
     0x9e8aab27, 0x33b66556, 0x16884b38, 0x0749e1f2] =
     [0xf4d496fa, 0x64f47c54, 0x8bb9b54d, 0x8950ba18,
     0x7ad5862c, 0xc4e0c843, 0x4db827eb, 0x3e296b4b,
     0x7527736a, 0xa9aac105, 0x585b905f, 0xfcc06019,
     0xb99108e9, 0xc88247d7, 0xe0ee4be5, 0x1eed29ff]"
  by (simp add: spec_eval)

lemma rfc8439_aead_block_round_4:
  "spec_double_round
     [0xf4d496fa, 0x64f47c54, 0x8bb9b54d, 0x8950ba18,
     0x7ad5862c, 0xc4e0c843, 0x4db827eb, 0x3e296b4b,
     0x7527736a, 0xa9aac105, 0x585b905f, 0xfcc06019,
     0xb99108e9, 0xc88247d7, 0xe0ee4be5, 0x1eed29ff] =
     [0x0055b232, 0xd0b723b7, 0xf26c19e9, 0x74558ae2,
     0x4a5d5cbf, 0xe5bacff4, 0x61de73dc, 0xc99663db,
     0xe6eed20b, 0x645e2127, 0xd86363fe, 0xa4358280,
     0x6efd1d26, 0x928edda9, 0x6f5d6664, 0x84499ed6]"
  by (simp add: spec_eval)

lemma rfc8439_aead_block_round_5:
  "spec_double_round
     [0x0055b232, 0xd0b723b7, 0xf26c19e9, 0x74558ae2,
     0x4a5d5cbf, 0xe5bacff4, 0x61de73dc, 0xc99663db,
     0xe6eed20b, 0x645e2127, 0xd86363fe, 0xa4358280,
     0x6efd1d26, 0x928edda9, 0x6f5d6664, 0x84499ed6] =
     [0xafdc2bac, 0xa8520d2a, 0x85c4a8c1, 0xd8e2c01d,
     0x72c3ccdb, 0x8d0656ac, 0x9c856fd0, 0x7b65f800,
     0xed452edf, 0xe8f2afe9, 0x62c7303a, 0x7aa2ab47,
     0x0677c177, 0x273dee91, 0xa70cc57a, 0x0ad86772]"
  by (simp add: spec_eval)

lemma rfc8439_aead_block_round_6:
  "spec_double_round
     [0xafdc2bac, 0xa8520d2a, 0x85c4a8c1, 0xd8e2c01d,
     0x72c3ccdb, 0x8d0656ac, 0x9c856fd0, 0x7b65f800,
     0xed452edf, 0xe8f2afe9, 0x62c7303a, 0x7aa2ab47,
     0x0677c177, 0x273dee91, 0xa70cc57a, 0x0ad86772] =
     [0x6e9e52e1, 0xce5a2c8c, 0xf72c61e8, 0x8eb175c3,
     0x29e31a63, 0x54376cc4, 0x27855777, 0xd83249a5,
     0x42fd2515, 0xdd247fab, 0xefe39d7d, 0xc90192c9,
     0xcaea1e54, 0xed6db63b, 0xd7025920, 0xaf5cc795]"
  by (simp add: spec_eval)

lemma rfc8439_aead_block_round_7:
  "spec_double_round
     [0x6e9e52e1, 0xce5a2c8c, 0xf72c61e8, 0x8eb175c3,
     0x29e31a63, 0x54376cc4, 0x27855777, 0xd83249a5,
     0x42fd2515, 0xdd247fab, 0xefe39d7d, 0xc90192c9,
     0xcaea1e54, 0xed6db63b, 0xd7025920, 0xaf5cc795] =
     [0x749a1a30, 0x3cf2142d, 0xe179c7f4, 0x4c4d9c22,
     0x283ff574, 0xd318dfcc, 0x22ceaa2d, 0xc3ee72c5,
     0xd5dbb84c, 0x4d9a3644, 0x383e4f36, 0xa5915003,
     0x2866c553, 0x89e8e8a4, 0x58f35070, 0x7d026154]"
  by (simp add: spec_eval)

lemma rfc8439_aead_block_round_8:
  "spec_double_round
     [0x749a1a30, 0x3cf2142d, 0xe179c7f4, 0x4c4d9c22,
     0x283ff574, 0xd318dfcc, 0x22ceaa2d, 0xc3ee72c5,
     0xd5dbb84c, 0x4d9a3644, 0x383e4f36, 0xa5915003,
     0x2866c553, 0x89e8e8a4, 0x58f35070, 0x7d026154] =
     [0xf3f2f3fb, 0x699d6804, 0xcf143812, 0xf62f795f,
     0x6d5afb59, 0xedc994e7, 0x28bf944b, 0x71a7f2ff,
     0x8d9e8e30, 0x6e3bca79, 0x42920f8a, 0xe25d89a5,
     0x460bf896, 0x333782ec, 0xc9577711, 0x781263cb]"
  by (simp add: spec_eval)

lemma rfc8439_aead_block_round_9:
  "spec_double_round
     [0xf3f2f3fb, 0x699d6804, 0xcf143812, 0xf62f795f,
     0x6d5afb59, 0xedc994e7, 0x28bf944b, 0x71a7f2ff,
     0x8d9e8e30, 0x6e3bca79, 0x42920f8a, 0xe25d89a5,
     0x460bf896, 0x333782ec, 0xc9577711, 0x781263cb] =
     [0x6573080d, 0xe1ba503c, 0x7b7d12ee, 0x8e7bbf3d,
     0xe2117e14, 0x3d688c4b, 0x5210d5e4, 0xf9c1c8d5,
     0x81735ffb, 0x40c9da40, 0x2e63bd96, 0x7d602f88,
     0xb2890632, 0x844cbb1f, 0x54ae477f, 0xbea08f58]"
  by (simp add: spec_eval)

lemma rfc8439_aead_block_round_10:
  "spec_double_round
     [0x6573080d, 0xe1ba503c, 0x7b7d12ee, 0x8e7bbf3d,
     0xe2117e14, 0x3d688c4b, 0x5210d5e4, 0xf9c1c8d5,
     0x81735ffb, 0x40c9da40, 0x2e63bd96, 0x7d602f88,
     0xb2890632, 0x844cbb1f, 0x54ae477f, 0xbea08f58] =
     [0xc3bb3416, 0x7c274fbf, 0xdc1888d7, 0x19358430,
     0xf0545f8a, 0x6452ef8c, 0xeceb09a2, 0x6fc547b2,
     0x4b39ed12, 0x1cb74619, 0x49017e39, 0x38a46e2d,
     0x8c94b7bc, 0x8b7d4b44, 0xf5e5b53d, 0xcf235eee]"
  by (simp add: spec_eval)

lemma rfc8439_aead_block_rounds:
  "(spec_double_round ^^ 10)
     [0x61707865, 0x3320646e, 0x79622d32, 0x6b206574,
     0x83828180, 0x87868584, 0x8b8a8988, 0x8f8e8d8c,
     0x93929190, 0x97969594, 0x9b9a9998, 0x9f9e9d9c,
     0x00000000, 0x00000007, 0x43424140, 0x47464544] =
     [0xc3bb3416, 0x7c274fbf, 0xdc1888d7, 0x19358430,
     0xf0545f8a, 0x6452ef8c, 0xeceb09a2, 0x6fc547b2,
     0x4b39ed12, 0x1cb74619, 0x49017e39, 0x38a46e2d,
     0x8c94b7bc, 0x8b7d4b44, 0xf5e5b53d, 0xcf235eee]"
  by (simp only: funpow_10 rfc8439_aead_block_round_1 rfc8439_aead_block_round_2 rfc8439_aead_block_round_3 rfc8439_aead_block_round_4 rfc8439_aead_block_round_5 rfc8439_aead_block_round_6 rfc8439_aead_block_round_7 rfc8439_aead_block_round_8 rfc8439_aead_block_round_9 rfc8439_aead_block_round_10)

lemma rfc8439_aead_key_words:
  "map spec_le_nat (spec_chunks 4 rfc8439_aead_key) =
     [0x83828180, 0x87868584, 0x8b8a8988, 0x8f8e8d8c, 0x93929190, 0x97969594, 0x9b9a9998, 0x9f9e9d9c]"
  by (simp add: rfc8439_aead_key_def spec_chunks_step spec_le_nat_def)

lemma rfc8439_aead_nonce_words:
  "map spec_le_nat (spec_chunks 4 rfc8439_aead_nonce) = [0x00000007, 0x43424140, 0x47464544]"
  by (simp add: rfc8439_aead_nonce_def spec_chunks_step spec_le_nat_def)

lemma rfc8439_aead_spec_block:
  "spec_block [0x83828180, 0x87868584, 0x8b8a8988, 0x8f8e8d8c,
               0x93929190, 0x97969594, 0x9b9a9998, 0x9f9e9d9c] 0 [0x00000007, 0x43424140, 0x47464544] =
     [0x252bac7b, 0xaf47b42d, 0x557ab609, 0x8455e9a4,
      0x73d6e10a, 0xebd97510, 0x7875932a, 0xff53d53e,
      0xdecc7ea2, 0xb44ddbad, 0xe49c17d1, 0xd8430bc9,
      0x8c94b7bc, 0x8b7d4b4b, 0x3927f67d, 0x1669a432]"
  by (simp add: spec_block_def spec_initial_state_def spec_constants_eval rfc8439_aead_block_rounds
        spec_add32_def del: One_nat_def)

lemma rfc8439_aead_key_block:
  "fst (CreateBlock (NewChaCha20 rfc8439_aead_key rfc8439_aead_nonce [0x00, 0x00, 0x00, 0x00])) =
     [0x252bac7b, 0xaf47b42d, 0x557ab609, 0x8455e9a4,
      0x73d6e10a, 0xebd97510, 0x7875932a, 0xff53d53e,
      0xdecc7ea2, 0xb44ddbad, 0xe49c17d1, 0xd8430bc9,
      0x8c94b7bc, 0x8b7d4b4b, 0x3927f67d, 0x1669a432]"
proof (rule map_unat_inj)
  let ?c0 = "NewChaCha20 rfc8439_aead_key rfc8439_aead_nonce [0x00, 0x00, 0x00, 0x00]"
  have k: "length rfc8439_aead_key = 32" by (simp add: rfc8439_aead_key_def)
  have n: "length rfc8439_aead_nonce = 12" by (simp add: rfc8439_aead_nonce_def)
  have kw: "map unat (key ?c0) = map spec_le_nat (spec_chunks 4 rfc8439_aead_key)"
    using k by (rule NewChaCha20_key_words)
  have nw: "map unat (nonce ?c0) = map spec_le_nat (spec_chunks 4 rfc8439_aead_nonce)"
    using n by (rule NewChaCha20_nonce_words)
  have c: "unat (counter ?c0) = 0" by (simp add: NewChaCha20_counter_field Uint32_00)
  have "map unat (fst (CreateBlock ?c0)) =
      spec_block (map unat (key ?c0)) (unat (counter ?c0)) (map unat (nonce ?c0))"
    by (rule CreateBlock_unat) simp_all
  then show "map unat (fst (CreateBlock ?c0)) = map unat
     [0x252bac7b, 0xaf47b42d, 0x557ab609, 0x8455e9a4,
      0x73d6e10a, 0xebd97510, 0x7875932a, 0xff53d53e,
      0xdecc7ea2, 0xb44ddbad, 0xe49c17d1, 0xd8430bc9,
      0x8c94b7bc, 0x8b7d4b4b, 0x3927f67d, 0x1669a432 :: uint32]"
    unfolding kw nw c rfc8439_aead_key_words rfc8439_aead_nonce_words rfc8439_aead_spec_block
    by simp
qed

lemma rfc8439_aead_poly_key:
  "take 32 (spec_block_bytes
     [0x252bac7b, 0xaf47b42d, 0x557ab609, 0x8455e9a4,
      0x73d6e10a, 0xebd97510, 0x7875932a, 0xff53d53e,
      0xdecc7ea2, 0xb44ddbad, 0xe49c17d1, 0xd8430bc9,
      0x8c94b7bc, 0x8b7d4b4b, 0x3927f67d, 0x1669a432]) =
   [0x7b, 0xac, 0x2b, 0x25, 0x2d, 0xb4, 0x47, 0xaf, 0x09, 0xb6, 0x7a, 0x55, 0xa4, 0xe9, 0x55, 0x84,
    0x0a, 0xe1, 0xd6, 0x73, 0x10, 0x75, 0xd9, 0xeb, 0x2a, 0x93, 0x75, 0x78, 0x3e, 0xd5, 0x53, 0xff]"
  by (simp add: spec_block_bytes_def spec_word_bytes_def spec_le_bytes_numeral)

lemma rfc8439_aead_input:
  "spec_authenticated_input rfc8439_aead_aad test_message =
     [0x50, 0x51, 0x52, 0x53, 0xc0, 0xc1, 0xc2, 0xc3, 0xc4, 0xc5, 0xc6, 0xc7, 0x00, 0x00, 0x00, 0x00,
      0x73, 0x75, 0x6e, 0x73, 0x63, 0x72, 0x65, 0x65, 0x6e, 0x20, 0x77, 0x6f, 0x75, 0x6c, 0x64, 0x20,
      0x62, 0x65, 0x20, 0x69, 0x74, 0x2e, 0x00, 0x00, 0x00, 0x00, 0x00, 0x00, 0x00, 0x00, 0x00, 0x00,
      0x0c, 0x00, 0x00, 0x00, 0x00, 0x00, 0x00, 0x00, 0x16, 0x00, 0x00, 0x00, 0x00, 0x00, 0x00, 0x00]"
  by (simp add: spec_authenticated_input_def spec_zero_pad16_def rfc8439_aead_aad_def test_message_def
        spec_le_bytes_numeral replicate_numeral)

text \<open>The amended claim C5 on the test vector of RFC 8439, section 2.8.2: the Poly1305 key,
  the counter after construction, and the authenticated input.\<close>

theorem AEAD_key_derivation_and_framing_witness:
  "length rfc8439_aead_key = 32 \<and> length rfc8439_aead_nonce = 12 \<and>
   length rfc8439_aead_aad < 2 ^ 32 \<and> length test_message < 2 ^ 32 \<and>
   poly1305 (NewChaCha20Poly1305 rfc8439_aead_key rfc8439_aead_nonce) = NewPoly1305
     [0x7b, 0xac, 0x2b, 0x25, 0x2d, 0xb4, 0x47, 0xaf, 0x09, 0xb6, 0x7a, 0x55, 0xa4, 0xe9, 0x55, 0x84,
      0x0a, 0xe1, 0xd6, 0x73, 0x10, 0x75, 0xd9, 0xeb, 0x2a, 0x93, 0x75, 0x78, 0x3e, 0xd5, 0x53, 0xff] \<and>
   counter (chacha20 (NewChaCha20Poly1305 rfc8439_aead_key rfc8439_aead_nonce)) = 1 \<and>
   generatePoly1305Input rfc8439_aead_aad test_message =
     [0x50, 0x51, 0x52, 0x53, 0xc0, 0xc1, 0xc2, 0xc3, 0xc4, 0xc5, 0xc6, 0xc7, 0x00, 0x00, 0x00, 0x00,
      0x73, 0x75, 0x6e, 0x73, 0x63, 0x72, 0x65, 0x65, 0x6e, 0x20, 0x77, 0x6f, 0x75, 0x6c, 0x64, 0x20,
      0x62, 0x65, 0x20, 0x69, 0x74, 0x2e, 0x00, 0x00, 0x00, 0x00, 0x00, 0x00, 0x00, 0x00, 0x00, 0x00,
      0x0c, 0x00, 0x00, 0x00, 0x00, 0x00, 0x00, 0x00, 0x16, 0x00, 0x00, 0x00, 0x00, 0x00, 0x00, 0x00]"
proof -
  have k: "length rfc8439_aead_key = 32" by (simp add: rfc8439_aead_key_def)
  have n: "length rfc8439_aead_nonce = 12" by (simp add: rfc8439_aead_nonce_def)
  have a: "length rfc8439_aead_aad < 2 ^ 32" by (simp add: rfc8439_aead_aad_def)
  have m: "length test_message < 2 ^ 32" by (simp add: test_message_def)
  note t = AEAD_key_derivation_and_framing[OF k n a m, where plaintext = "[]", unfolded Let_def]
  note p = t[THEN conjunct2, THEN conjunct1]
  note c = t[THEN conjunct2, THEN conjunct2, THEN conjunct2, THEN conjunct1]
  note f = t[THEN conjunct2, THEN conjunct2, THEN conjunct2, THEN conjunct2, THEN conjunct2,
    THEN conjunct2]
  show ?thesis
    using k n a m c p[unfolded rfc8439_aead_key_block rfc8439_aead_poly_key]
      f[unfolded rfc8439_aead_input]
    by blast
qed

lemma NewHChaCha20_state:
  assumes "length keyb = 32" "length nonceb = 16"
  shows "map unat (state (hchacha20_chacha20 (NewHChaCha20 keyb nonceb))) =
           spec_hchacha20_state keyb nonceb"
proof -
  let ?c = "NewChaCha20 keyb (slice nonceb 4 16) (slice nonceb 0 4)"
  have s0: "slice nonceb 0 4 = take 4 nonceb" by (simp add: slice_def)
  have s1: "slice nonceb 4 16 = drop 4 nonceb" using assms by (simp add: slice_def)
  have l0: "length (slice nonceb 0 4) = 4" using assms by (simp add: slice_def)
  have l1: "length (slice nonceb 4 16) = 12" using assms by (simp add: slice_def)
  have st: "state ?c = initState (key ?c) (nonce ?c) (counter ?c)"
    by (simp add: NewChaCha20_def Let_def)
  have "map unat (state ?c) =
      spec_initial_state (map unat (key ?c)) (unat (counter ?c)) (map unat (nonce ?c))"
    unfolding st by (rule initState_unat) simp_all
  also have "\<dots> = spec_constants @ map spec_le_nat (spec_chunks 4 keyb) @
      [spec_le_nat (take 4 nonceb)] @ map spec_le_nat (spec_chunks 4 (drop 4 nonceb))"
    unfolding spec_initial_state_def NewChaCha20_key_words[OF assms(1)]
      NewChaCha20_nonce_words[OF l1] NewChaCha20_counter[OF l0]
    by (simp only: s0 s1)
  also have "\<dots> = spec_hchacha20_state keyb nonceb"
    using assms by (simp add: spec_hchacha20_state_def spec_chunks_step[of 4 nonceb])
  finally show ?thesis by (simp add: NewHChaCha20_def Let_def)
qed

lemma spec_block_bytes_unat:
  "spec_block_bytes ws = concat (map (spec_le_bytes 4) (map unat ws))"
proof -
  have "spec_word_bytes = (\<lambda>x. spec_le_bytes 4 (unat x))"
    by (rule ext) (simp add: spec_word_bytes_def)
  then show ?thesis by (simp add: spec_block_bytes_def comp_def)
qed

lemma spec_block_bytes_append:
  "spec_block_bytes (xs @ ys) = spec_block_bytes xs @ spec_block_bytes ys"
  by (simp add: spec_block_bytes_def)

lemma GenerateSubKey_rows:
  assumes "length (state (hchacha20_chacha20 h)) = 16"
  shows "fst (GenerateSubKey h) =
    spec_block_bytes (take 4 (state ((doubleRound ^^ 10) (hchacha20_chacha20 h))) @
                      drop 12 (state ((doubleRound ^^ 10) (hchacha20_chacha20 h))))"
proof -
  let ?st = "state ((doubleRound ^^ 10) (hchacha20_chacha20 h))"
  have l: "length ?st = 16" using assms by simp
  have f: "slice ?st 0 4 = take 4 ?st" by (simp add: slice_def)
  have la: "slice ?st 12 16 = drop 12 ?st" using l by (simp add: slice_def)
  have lf: "length (take 4 ?st) = 4" using l by simp
  have ll: "length (drop 12 ?st) = 4" using l by simp
  let ?k1 = "fold (\<lambda>i k. putWord k (i * 4) (take 4 ?st ! i)) [0..<4] (replicate 32 0)"
  have k1: "?k1 = spec_block_bytes (take 4 ?st) @ replicate 16 0"
    using fold_putWord_0[of 4 "take 4 ?st" "replicate 32 0"] lf by simp
  have lk: "length (spec_block_bytes (take 4 ?st)) = 16" using lf by simp
  have "fold (\<lambda>i k. putWord k (i * 4 + 16) (drop 12 ?st ! i)) [0..<4] ?k1 =
      take 16 ?k1 @ spec_block_bytes (take 4 (drop 12 ?st)) @ drop (16 + 4 * 4) ?k1"
    by (rule fold_putWord) (simp_all add: k1 lk assms)
  also have "\<dots> = spec_block_bytes (take 4 ?st) @ spec_block_bytes (drop 12 ?st)"
    using lk ll by (simp add: k1)
  finally have k2: "fold (\<lambda>i k. putWord k (i * 4 + 16) (drop 12 ?st ! i)) [0..<4] ?k1 =
      spec_block_bytes (take 4 ?st @ drop 12 ?st)"
    by (simp only: spec_block_bytes_append)
  show ?thesis
    unfolding GenerateSubKey_def TwentyRounds_def Let_def prod.case f la
    by (simp only: lf ll k2 fst_conv)
qed

lemma GenerateSubKey_subkey:
  assumes "length keyb = 32" "length nonceb = 16"
  shows "fst (GenerateSubKey (NewHChaCha20 keyb nonceb)) = spec_hchacha20 keyb nonceb"
proof -
  let ?c = "hchacha20_chacha20 (NewHChaCha20 keyb nonceb)"
  let ?st = "state ((doubleRound ^^ 10) ?c)"
  have l: "length (state ?c) = 16" by (simp add: NewHChaCha20_def Let_def)
  have s: "map unat (state ?c) = spec_hchacha20_state keyb nonceb"
    using assms by (rule NewHChaCha20_state)
  have r: "map unat ?st = (spec_double_round ^^ 10) (spec_hchacha20_state keyb nonceb)"
    using doubleRound_pow_unat[OF l, of 10] by (simp only: s)
  have k: "fst (GenerateSubKey (NewHChaCha20 keyb nonceb)) =
      spec_block_bytes (take 4 ?st @ drop 12 ?st)"
    using l by (rule GenerateSubKey_rows)
  have "spec_block_bytes (take 4 ?st @ drop 12 ?st) =
      concat (map (spec_le_bytes 4) (take 4 (map unat ?st) @ drop 12 (map unat ?st)))"
    by (simp only: spec_block_bytes_unat map_append take_map drop_map)
  then show ?thesis
    by (simp only: k r spec_hchacha20_def Let_def)
qed

lemma length_GenerateSubKey:
  "length (fst (GenerateSubKey (NewHChaCha20 keyb nonceb))) = 32"
proof -
  let ?c = "hchacha20_chacha20 (NewHChaCha20 keyb nonceb)"
  have l: "length (state ?c) = 16" by (simp add: NewHChaCha20_def Let_def)
  then have "length (state ((doubleRound ^^ 10) ?c)) = 16" by simp
  then show ?thesis by (simp add: GenerateSubKey_rows[OF l])
qed

text \<open>
  Claim C8. For a 32-byte key and a 16-byte nonce, \<^verbatim>\<open>NewHChaCha20\<close> builds the state of
  ChaCha20 with the four words of the nonce in the last row, the first four bytes of the nonce
  in the position of the counter; \<^verbatim>\<open>GenerateSubKey\<close> runs ten double rounds on it, adds
  nothing to the result, and returns 32 bytes: words 0 to 3 and then words 12 to 15 of the
  permuted state, each low byte first.
\<close>

theorem GenerateSubKey_spec:
  assumes "length keyb = 32" "length nonceb = 16"
  shows "map unat (state (hchacha20_chacha20 (NewHChaCha20 keyb nonceb))) =
           spec_constants @ map spec_le_nat (spec_chunks 4 keyb) @
           map spec_le_nat (spec_chunks 4 nonceb) \<and>
         fst (GenerateSubKey (NewHChaCha20 keyb nonceb)) = spec_hchacha20 keyb nonceb \<and>
         length (fst (GenerateSubKey (NewHChaCha20 keyb nonceb))) = 32"
proof -
  have s: "map unat (state (hchacha20_chacha20 (NewHChaCha20 keyb nonceb))) =
      spec_hchacha20_state keyb nonceb"
    using assms by (rule NewHChaCha20_state)
  have e: "fst (GenerateSubKey (NewHChaCha20 keyb nonceb)) = spec_hchacha20 keyb nonceb"
    using assms by (rule GenerateSubKey_subkey)
  have n: "length (fst (GenerateSubKey (NewHChaCha20 keyb nonceb))) = 32"
    by (rule length_GenerateSubKey)
  from s e n show ?thesis by (simp only: spec_hchacha20_state_def simp_thms)
qed

text \<open>The permutation of the test vector of draft-irtf-cfrg-xchacha, section 2.2.1, one
  double round at a time.\<close>

lemma hchacha20_vector_round_1:
  "spec_double_round
     [0x61707865, 0x3320646e, 0x79622d32, 0x6b206574,
     0x03020100, 0x07060504, 0x0b0a0908, 0x0f0e0d0c,
     0x13121110, 0x17161514, 0x1b1a1918, 0x1f1e1d1c,
     0x09000000, 0x4a000000, 0x00000000, 0x27594131] =
     [0x7bc434f3, 0x6a045b3d, 0xa9b6a717, 0xe97301f1,
     0x61ba01e7, 0x8d245f4b, 0x33708154, 0xd31e1023,
     0x3af18a5b, 0xb644b533, 0xfd66db41, 0x51e9ad3a,
     0xc424874b, 0x61d36895, 0xe9ff651a, 0x923c81f0]"
  by (simp add: spec_eval)

lemma hchacha20_vector_round_2:
  "spec_double_round
     [0x7bc434f3, 0x6a045b3d, 0xa9b6a717, 0xe97301f1,
     0x61ba01e7, 0x8d245f4b, 0x33708154, 0xd31e1023,
     0x3af18a5b, 0xb644b533, 0xfd66db41, 0x51e9ad3a,
     0xc424874b, 0x61d36895, 0xe9ff651a, 0x923c81f0] =
     [0x8e19d568, 0x4f94b2fa, 0xe2e6b081, 0xe3471ee3,
     0x5d8dc91e, 0xe4843060, 0x7c532d54, 0x9ad42044,
     0x0b30ba63, 0x4f1b068a, 0x83ad7706, 0xc3e09f4c,
     0xa664c0c1, 0x3292fc5b, 0xa73c703f, 0x7137a6f4]"
  by (simp add: spec_eval)

lemma hchacha20_vector_round_3:
  "spec_double_round
     [0x8e19d568, 0x4f94b2fa, 0xe2e6b081, 0xe3471ee3,
     0x5d8dc91e, 0xe4843060, 0x7c532d54, 0x9ad42044,
     0x0b30ba63, 0x4f1b068a, 0x83ad7706, 0xc3e09f4c,
     0xa664c0c1, 0x3292fc5b, 0xa73c703f, 0x7137a6f4] =
     [0x9f53c98b, 0x87372c3c, 0x8995494b, 0x2939b691,
     0xaa53ec91, 0xa64cd8c6, 0x591beafb, 0x1a9dbfe2,
     0x0c5e96dd, 0x153f5501, 0x83e50579, 0xad694245,
     0x82fb0b27, 0x9479489b, 0x3ef1765e, 0xff752502]"
  by (simp add: spec_eval)

lemma hchacha20_vector_round_4:
  "spec_double_round
     [0x9f53c98b, 0x87372c3c, 0x8995494b, 0x2939b691,
     0xaa53ec91, 0xa64cd8c6, 0x591beafb, 0x1a9dbfe2,
     0x0c5e96dd, 0x153f5501, 0x83e50579, 0xad694245,
     0x82fb0b27, 0x9479489b, 0x3ef1765e, 0xff752502] =
     [0x7b893f75, 0xfcb39b21, 0x0797b1bf, 0x5f9ec3b3,
     0x4e0f0bd5, 0xafa77b58, 0xea5562e0, 0xd7ac0abe,
     0x6990c3af, 0x435ab730, 0xd68d7249, 0x16696500,
     0xb0162333, 0x553ccfa7, 0x13cbe911, 0xdbbab6cc]"
  by (simp add: spec_eval)

lemma hchacha20_vector_round_5:
  "spec_double_round
     [0x7b893f75, 0xfcb39b21, 0x0797b1bf, 0x5f9ec3b3,
     0x4e0f0bd5, 0xafa77b58, 0xea5562e0, 0xd7ac0abe,
     0x6990c3af, 0x435ab730, 0xd68d7249, 0x16696500,
     0xb0162333, 0x553ccfa7, 0x13cbe911, 0xdbbab6cc] =
     [0xd1de186c, 0xb0c7b93c, 0xd078df04, 0x660e0112,
     0x67e36bdb, 0xac30ed15, 0xbd9ed3dd, 0x7851b2cd,
     0xab33732a, 0xba25d2cf, 0x4ed7a584, 0x5bd1985c,
     0xf3168d27, 0x8d87591b, 0x8c80db2f, 0x44367d8c]"
  by (simp add: spec_eval)

lemma hchacha20_vector_round_6:
  "spec_double_round
     [0xd1de186c, 0xb0c7b93c, 0xd078df04, 0x660e0112,
     0x67e36bdb, 0xac30ed15, 0xbd9ed3dd, 0x7851b2cd,
     0xab33732a, 0xba25d2cf, 0x4ed7a584, 0x5bd1985c,
     0xf3168d27, 0x8d87591b, 0x8c80db2f, 0x44367d8c] =
     [0x44ac8600, 0xe23f5411, 0x5ae80570, 0x5d4f85b8,
     0x2de236d4, 0xfddd6beb, 0x0e3b8a87, 0x8c65a958,
     0x8018e660, 0xe591c0ff, 0x33dec291, 0xf507052f,
     0x4eccc9aa, 0x48e81158, 0x45902c7f, 0xfed52426]"
  by (simp add: spec_eval)

lemma hchacha20_vector_round_7:
  "spec_double_round
     [0x44ac8600, 0xe23f5411, 0x5ae80570, 0x5d4f85b8,
     0x2de236d4, 0xfddd6beb, 0x0e3b8a87, 0x8c65a958,
     0x8018e660, 0xe591c0ff, 0x33dec291, 0xf507052f,
     0x4eccc9aa, 0x48e81158, 0x45902c7f, 0xfed52426] =
     [0x82f32a6d, 0x8e367c9d, 0x12b17440, 0x1bda71e1,
     0x9375cc72, 0xc4a0c4c8, 0xd199bb4b, 0x2c035ec8,
     0x6a8444e0, 0xd4b831be, 0xade4e9ca, 0xe44d4801,
     0xa6cec396, 0x6cf97b4d, 0xfd6c3bb3, 0xa74858b5]"
  by (simp add: spec_eval)

lemma hchacha20_vector_round_8:
  "spec_double_round
     [0x82f32a6d, 0x8e367c9d, 0x12b17440, 0x1bda71e1,
     0x9375cc72, 0xc4a0c4c8, 0xd199bb4b, 0x2c035ec8,
     0x6a8444e0, 0xd4b831be, 0xade4e9ca, 0xe44d4801,
     0xa6cec396, 0x6cf97b4d, 0xfd6c3bb3, 0xa74858b5] =
     [0x4d7f6f44, 0xe8db7660, 0x2268596b, 0x195222b4,
     0x64520ce3, 0x2d3d17fc, 0x0aa8fb53, 0x375eb422,
     0xc0d0af92, 0x12244acd, 0x5a534192, 0x6abb8c14,
     0x0a2bcb7c, 0x7e657143, 0x89b818ce, 0xaf9b6644]"
  by (simp add: spec_eval)

lemma hchacha20_vector_round_9:
  "spec_double_round
     [0x4d7f6f44, 0xe8db7660, 0x2268596b, 0x195222b4,
     0x64520ce3, 0x2d3d17fc, 0x0aa8fb53, 0x375eb422,
     0xc0d0af92, 0x12244acd, 0x5a534192, 0x6abb8c14,
     0x0a2bcb7c, 0x7e657143, 0x89b818ce, 0xaf9b6644] =
     [0x2d02a54c, 0x6fdd5da4, 0x517a3ba9, 0x4048cdf3,
     0x2735a16f, 0xfdf971a2, 0x454a57d9, 0xf1886447,
     0xc7a7fbc9, 0x6f108d65, 0x8ffa82c8, 0xc8267115,
     0x18bb420c, 0x2d4e065f, 0x16d4618a, 0xc7f61ba4]"
  by (simp add: spec_eval)

lemma hchacha20_vector_round_10:
  "spec_double_round
     [0x2d02a54c, 0x6fdd5da4, 0x517a3ba9, 0x4048cdf3,
     0x2735a16f, 0xfdf971a2, 0x454a57d9, 0xf1886447,
     0xc7a7fbc9, 0x6f108d65, 0x8ffa82c8, 0xc8267115,
     0x18bb420c, 0x2d4e065f, 0x16d4618a, 0xc7f61ba4] =
     [0x423b4182, 0xfe7bb227, 0x50420ed3, 0x737d878a,
     0x0aa76448, 0x7954cdf3, 0x846acd37, 0x7b3c58ad,
     0x77e35583, 0x83e77c12, 0xe0076a2d, 0xbc6cd0e5,
     0xd5e4f9a0, 0x53a8748a, 0x13c42ec1, 0xdcecd326]"
  by (simp add: spec_eval)

lemma hchacha20_vector_rounds:
  "(spec_double_round ^^ 10)
     [0x61707865, 0x3320646e, 0x79622d32, 0x6b206574,
     0x03020100, 0x07060504, 0x0b0a0908, 0x0f0e0d0c,
     0x13121110, 0x17161514, 0x1b1a1918, 0x1f1e1d1c,
     0x09000000, 0x4a000000, 0x00000000, 0x27594131] =
     [0x423b4182, 0xfe7bb227, 0x50420ed3, 0x737d878a,
     0x0aa76448, 0x7954cdf3, 0x846acd37, 0x7b3c58ad,
     0x77e35583, 0x83e77c12, 0xe0076a2d, 0xbc6cd0e5,
     0xd5e4f9a0, 0x53a8748a, 0x13c42ec1, 0xdcecd326]"
  by (simp only: funpow_10 hchacha20_vector_round_1 hchacha20_vector_round_2 hchacha20_vector_round_3 hchacha20_vector_round_4 hchacha20_vector_round_5 hchacha20_vector_round_6 hchacha20_vector_round_7 hchacha20_vector_round_8 hchacha20_vector_round_9 hchacha20_vector_round_10)

lemma hchacha20_nonce_words:
  "map spec_le_nat (spec_chunks 4 hchacha20_nonce) = [0x09000000, 0x4a000000, 0, 0x27594131]"
  by (simp add: hchacha20_nonce_def spec_chunks_step spec_le_nat_def)

lemma hchacha20_vector_subkey:
  "spec_hchacha20 rfc8439_key hchacha20_nonce =
     [0x82, 0x41, 0x3b, 0x42, 0x27, 0xb2, 0x7b, 0xfe, 0xd3, 0x0e, 0x42, 0x50, 0x8a, 0x87, 0x7d, 0x73,
      0xa0, 0xf9, 0xe4, 0xd5, 0x8a, 0x74, 0xa8, 0x53, 0xc1, 0x2e, 0xc4, 0x13, 0x26, 0xd3, 0xec, 0xdc]"
  by (simp add: spec_hchacha20_def spec_hchacha20_state_def spec_constants_eval rfc8439_key_words
        hchacha20_nonce_words hchacha20_vector_rounds spec_le_bytes_numeral)

text \<open>Claim C8 on the test vector of draft-irtf-cfrg-xchacha, section 2.2.1.\<close>

theorem GenerateSubKey_spec_witness:
  "length rfc8439_key = 32 \<and> length hchacha20_nonce = 16 \<and>
   map unat (state (hchacha20_chacha20 (NewHChaCha20 rfc8439_key hchacha20_nonce))) =
     [0x61707865, 0x3320646e, 0x79622d32, 0x6b206574,
      0x03020100, 0x07060504, 0x0b0a0908, 0x0f0e0d0c,
      0x13121110, 0x17161514, 0x1b1a1918, 0x1f1e1d1c,
      0x09000000, 0x4a000000, 0x00000000, 0x27594131] \<and>
   fst (GenerateSubKey (NewHChaCha20 rfc8439_key hchacha20_nonce)) =
     [0x82, 0x41, 0x3b, 0x42, 0x27, 0xb2, 0x7b, 0xfe, 0xd3, 0x0e, 0x42, 0x50, 0x8a, 0x87, 0x7d, 0x73,
      0xa0, 0xf9, 0xe4, 0xd5, 0x8a, 0x74, 0xa8, 0x53, 0xc1, 0x2e, 0xc4, 0x13, 0x26, 0xd3, 0xec, 0xdc]"
proof -
  have k: "length rfc8439_key = 32" by (simp add: rfc8439_key_def)
  have n: "length hchacha20_nonce = 16" by (simp add: hchacha20_nonce_def)
  note t = GenerateSubKey_spec[OF k n]
  note s = t[THEN conjunct1, unfolded spec_constants_eval rfc8439_key_words hchacha20_nonce_words]
  note e = t[THEN conjunct2, THEN conjunct1, unfolded hchacha20_vector_subkey]
  from s have s': "map unat (state (hchacha20_chacha20 (NewHChaCha20 rfc8439_key hchacha20_nonce))) =
     [0x61707865, 0x3320646e, 0x79622d32, 0x6b206574,
      0x03020100, 0x07060504, 0x0b0a0908, 0x0f0e0d0c,
      0x13121110, 0x17161514, 0x1b1a1918, 0x1f1e1d1c,
      0x09000000, 0x4a000000, 0x00000000, 0x27594131]"
    by simp
  from k n s' e show ?thesis by blast
qed










lemma length_spec_poly1305_mac [simp]: "length (spec_poly1305_mac otk msg) = 16"
  by (simp add: spec_poly1305_mac_def spec_poly1305_tag_def)











end
